theory Spec2Isabelle
  imports Complex_Main "HOL-Library.Word" "HOL-Library.Multiset"
begin

section \<open>The cover colour extractor (color\_extractor.cpp)\<close>

text \<open>
  The extractor turns a decoded bitmap into a palette of dominant colours: pixels are
  resampled and filtered, converted from sRGB to CIELAB, clustered by K-Means under the
  CIEDE2000 colour difference, and the cluster centres are selected greedily and
  converted back to sRGB.

  Conventions of the embedding.
  \<^item> The C++ type \<open>float\<close> is embedded as \<^typ>\<open>real\<close>: arithmetic is exact, every decimal
    literal denotes its decimal value, and there is neither rounding nor NaN nor infinity.
    \<open>std::sqrt\<close>, \<open>std::cbrt\<close>, \<open>std::pow\<close>, \<open>std::sin\<close>, \<open>std::cos\<close>, \<open>std::exp\<close> are the
    mathematical functions; \<open>std::atan2\<close> is written out by quadrants.
  \<^item> \<open>uint8_t\<close> is \<^typ>\<open>8 word\<close>; \<open>size_t\<close> counts are \<^typ>\<open>nat\<close>; \<open>int\<close> values are
    \<^typ>\<open>int\<close>, and the sampler returns an error where a 32-bit \<open>int\<close> would overflow.
  \<^item> The values drawn from a \<open>std::mt19937\<close> seeded from \<open>std::random_device\<close> are an
    argument of the embedding, a function \<^typ>\<open>nat \<Rightarrow> nat\<close> read at an explicit position.
  \<^item> Exceptions are values of the type \<open>error\<close>; a function that may throw returns a sum.
\<close>

subsection \<open>Data structures\<close>

datatype RGB = RGB (rgb_r: "8 word") (rgb_g: "8 word") (rgb_b: "8 word")

datatype Lab = Lab (lab_L: real) (lab_a: real) (lab_b: real)

datatype Cluster = Cluster (centroid: Lab) (csize: nat)

subsection \<open>Colour space conversion\<close>

definition gamma_correct :: "real \<Rightarrow> real" where
  "gamma_correct c = (if c > 0.04045 then ((c + 0.055) / 1.055) powr 2.4 else c / 12.92)"

definition gamma_uncorrect :: "real \<Rightarrow> real" where
  "gamma_uncorrect c = (if c > 0.0031308 then 1.055 * (c powr (1 / 2.4)) - 0.055 else 12.92 * c)"

text \<open>The lambda \<open>f\<close> of \<open>rgb_to_lab\<close>.\<close>

definition lab_f :: "real \<Rightarrow> real" where
  "lab_f t = (if t > 0.008856 then root 3 t else 7.787 * t + 16 / 116)"

definition rgb_to_lab :: "8 word \<Rightarrow> 8 word \<Rightarrow> 8 word \<Rightarrow> Lab" where
  "rgb_to_lab r g b =
    (let rf = gamma_correct (real (unat r) / 255);
         gf = gamma_correct (real (unat g) / 255);
         bf = gamma_correct (real (unat b) / 255);
         x = rf * 0.4124 + gf * 0.3576 + bf * 0.1805;
         y = rf * 0.2126 + gf * 0.7152 + bf * 0.0722;
         z = rf * 0.0193 + gf * 0.1192 + bf * 0.9505;
         fx = lab_f (x / 0.95047);
         fy = lab_f (y / 1.00000);
         fz = lab_f (z / 1.08883)
     in Lab (116 * fy - 16) (500 * (fx - fy)) (200 * (fy - fz)))"

text \<open>The lambda \<open>f_inv\<close> of \<open>lab_to_rgb\<close>.\<close>

definition lab_f_inv :: "real \<Rightarrow> real" where
  "lab_f_inv t = (let t3 = t * t * t in if t3 > 0.008856 then t3 else (t - 16 / 116) / 7.787)"

text \<open>
  \<open>static_cast<uint8_t>(max(0, min(1, c)) * 255 + 0.5)\<close>: the operand lies between 0.5
  and 255.5, so the truncating cast is the floor.
\<close>

definition to_u8 :: "real \<Rightarrow> 8 word" where
  "to_u8 c = word_of_nat (nat \<lfloor>max 0 (min 1 c) * 255 + 0.5\<rfloor>)"

definition lab_to_rgb :: "Lab \<Rightarrow> RGB" where
  "lab_to_rgb lab =
    (let fy = (lab_L lab + 16) / 116;
         fx = lab_a lab / 500 + fy;
         fz = fy - lab_b lab / 200;
         x = lab_f_inv fx * 0.95047;
         y = lab_f_inv fy * 1.00000;
         z = lab_f_inv fz * 1.08883;
         rf = x * 3.2406 + y * (- 1.5372) + z * (- 0.4986);
         gf = x * (- 0.9689) + y * 1.8758 + z * 0.0415;
         bf = x * 0.0557 + y * (- 0.2040) + z * 1.0570
     in RGB (to_u8 (gamma_uncorrect rf)) (to_u8 (gamma_uncorrect gf)) (to_u8 (gamma_uncorrect bf)))"

subsection \<open>The CIEDE2000 colour difference\<close>

text \<open>
  \<open>std::atan2 y x\<close>, by quadrants, and the lambda \<open>atan2_deg\<close> that converts it to
  degrees in the range from 0 to 360.
\<close>

definition atan2 :: "real \<Rightarrow> real \<Rightarrow> real" where
  "atan2 y x =
    (if x > 0 then arctan (y / x)
     else if x < 0 then (if y \<ge> 0 then arctan (y / x) + pi else arctan (y / x) - pi)
     else if y > 0 then pi / 2
     else if y < 0 then - pi / 2
     else 0)"

definition atan2_deg :: "real \<Rightarrow> real \<Rightarrow> real" where
  "atan2_deg y x = (let rad = atan2 y x; deg = rad * 180 / pi in if deg < 0 then deg + 360 else deg)"

text \<open>
  The body of \<open>ciede2000\<close> up to the argument of the final square root. The source
  computes the sum inline; it is named here so that its sign can be stated.
\<close>

definition ciede2000_radicand :: "Lab \<Rightarrow> Lab \<Rightarrow> real" where
  "ciede2000_radicand lab1 lab2 =
    (let L1 = lab_L lab1; a1 = lab_a lab1; b1 = lab_b lab1;
         L2 = lab_L lab2; a2 = lab_a lab2; b2 = lab_b lab2;
         C1 = sqrt (a1 * a1 + b1 * b1);
         C2 = sqrt (a2 * a2 + b2 * b2);
         C_avg = (C1 + C2) / 2;
         C_avg7 = C_avg ^ 7;
         G = 0.5 * (1 - sqrt (C_avg7 / (C_avg7 + 6103515625)));
         a1_prime = a1 * (1 + G);
         a2_prime = a2 * (1 + G);
         C1_prime = sqrt (a1_prime * a1_prime + b1 * b1);
         C2_prime = sqrt (a2_prime * a2_prime + b2 * b2);
         h1_prime = atan2_deg b1 a1_prime;
         h2_prime = atan2_deg b2 a2_prime;
         delta_L_prime = L2 - L1;
         delta_C_prime = C2_prime - C1_prime;
         delta_h_prime =
           (if C1_prime * C2_prime = 0 then 0
            else let diff = h2_prime - h1_prime
                 in if \<bar>diff\<bar> \<le> 180 then diff
                    else if diff > 180 then diff - 360
                    else diff + 360);
         delta_H_prime = 2 * sqrt (C1_prime * C2_prime) * sin (delta_h_prime * pi / 360);
         L_avg = (L1 + L2) / 2;
         C_avg_prime = (C1_prime + C2_prime) / 2;
         h_avg_prime =
           (if C1_prime * C2_prime = 0 then h1_prime + h2_prime
            else let sum = h1_prime + h2_prime; diff = \<bar>h1_prime - h2_prime\<bar>
                 in if diff \<le> 180 then sum / 2
                    else if sum < 360 then (sum + 360) / 2
                    else (sum - 360) / 2);
         h_rad = h_avg_prime * pi / 180;
         T = 1 - 0.17 * cos (h_rad - pi / 6) + 0.24 * cos (2 * h_rad)
               + 0.32 * cos (3 * h_rad + pi / 30) - 0.20 * cos (4 * h_rad - 1.099557);
         delta_theta = 30 * exp (- (((h_avg_prime - 275) / 25) ^ 2));
         C_avg_prime7 = C_avg_prime ^ 7;
         R_C = 2 * sqrt (C_avg_prime7 / (C_avg_prime7 + 6103515625));
         L_avg_minus_50 = L_avg - 50;
         S_L = 1 + (0.015 * L_avg_minus_50 * L_avg_minus_50) / sqrt (20 + L_avg_minus_50 * L_avg_minus_50);
         S_C = 1 + 0.045 * C_avg_prime;
         S_H = 1 + 0.015 * C_avg_prime * T;
         R_T = - sin (2 * delta_theta * pi / 180) * R_C;
         delta_L = delta_L_prime / S_L;
         delta_C = delta_C_prime / S_C;
         delta_H = delta_H_prime / S_H
     in delta_L * delta_L + delta_C * delta_C + delta_H * delta_H + R_T * delta_C * delta_H)"

definition ciede2000 :: "Lab \<Rightarrow> Lab \<Rightarrow> real" where
  "ciede2000 lab1 lab2 = sqrt (ciede2000_radicand lab1 lab2)"


text \<open>
  The parts of the body of \<open>ciede2000\<close>, named for the proofs: the compensated \<open>a'\<close>,
  the two hue branches, and the weighted sum from \<open>T\<close> on. \<open>radicand_parts\<close> below
  shows that \<open>ciede2000_radicand\<close> is their composition.
\<close>

definition hue_delta :: "real \<Rightarrow> real \<Rightarrow> real \<Rightarrow> real \<Rightarrow> real" where
  "hue_delta C1_prime C2_prime h1_prime h2_prime =
     (if C1_prime * C2_prime = 0 then 0
      else let diff = h2_prime - h1_prime
           in if \<bar>diff\<bar> \<le> 180 then diff
              else if diff > 180 then diff - 360
              else diff + 360)"

definition hue_mean :: "real \<Rightarrow> real \<Rightarrow> real \<Rightarrow> real \<Rightarrow> real" where
  "hue_mean C1_prime C2_prime h1_prime h2_prime =
     (if C1_prime * C2_prime = 0 then h1_prime + h2_prime
      else let sum = h1_prime + h2_prime; diff = \<bar>h1_prime - h2_prime\<bar>
           in if diff \<le> 180 then sum / 2
              else if sum < 360 then (sum + 360) / 2
              else (sum - 360) / 2)"

definition weighted_sum :: "real \<Rightarrow> real \<Rightarrow> real \<Rightarrow> real \<Rightarrow> real \<Rightarrow> real \<Rightarrow> real" where
  "weighted_sum delta_L_prime delta_C_prime delta_H_prime L_avg C_avg_prime h_avg_prime =
    (let h_rad = h_avg_prime * pi / 180;
         T = 1 - 0.17 * cos (h_rad - pi / 6) + 0.24 * cos (2 * h_rad)
               + 0.32 * cos (3 * h_rad + pi / 30) - 0.20 * cos (4 * h_rad - 1.099557);
         delta_theta = 30 * exp (- (((h_avg_prime - 275) / 25) ^ 2));
         C_avg_prime7 = C_avg_prime ^ 7;
         R_C = 2 * sqrt (C_avg_prime7 / (C_avg_prime7 + 6103515625));
         L_avg_minus_50 = L_avg - 50;
         S_L = 1 + (0.015 * L_avg_minus_50 * L_avg_minus_50) / sqrt (20 + L_avg_minus_50 * L_avg_minus_50);
         S_C = 1 + 0.045 * C_avg_prime;
         S_H = 1 + 0.015 * C_avg_prime * T;
         R_T = - sin (2 * delta_theta * pi / 180) * R_C;
         delta_L = delta_L_prime / S_L;
         delta_C = delta_C_prime / S_C;
         delta_H = delta_H_prime / S_H
     in delta_L * delta_L + delta_C * delta_C + delta_H * delta_H + R_T * delta_C * delta_H)"

definition primed :: "real \<Rightarrow> real \<Rightarrow> real \<Rightarrow> real \<Rightarrow> real" where
  "primed a1 b1 a2 b2 =
    (let C1 = sqrt (a1 * a1 + b1 * b1);
         C2 = sqrt (a2 * a2 + b2 * b2);
         C_avg = (C1 + C2) / 2;
         C_avg7 = C_avg ^ 7;
         G = 0.5 * (1 - sqrt (C_avg7 / (C_avg7 + 6103515625)))
     in a1 * (1 + G))"

subsection \<open>The random draws\<close>

text \<open>
  Every generator of the source is a \<open>std::mt19937\<close> seeded from a fresh
  \<open>std::random_device\<close> and read through a distribution. How a distribution turns the
  generator's outputs into a value, and how many outputs one call consumes, is left to
  the library. The embedding therefore takes the drawn values themselves as its
  argument: a function that gives, for each position, the value of that call of a
  distribution on the generator. No function of the embedding has a seed, as none of the
  source has.
\<close>

type_synonym draws = "nat \<Rightarrow> nat"

text \<open>
  \<open>std::uniform_int_distribution<size_t> dist(0, n - 1)\<close>, the call \<open>dist(gen)\<close> at position
  \<open>pos\<close>. Its value lies between \<open>0\<close> and \<open>n - 1\<close>; a given value beyond that is cut to
  \<open>n - 1\<close>.
\<close>

definition uniform_index :: "draws \<Rightarrow> nat \<Rightarrow> nat \<Rightarrow> nat" where
  "uniform_index gen pos n = min (gen pos) (n - 1)"

text \<open>
  \<open>std::uniform_real_distribution<float> dist(lo, hi)\<close>, the call at position \<open>pos\<close>: the
  given value is the place of the drawn number in the interval, in units of \<open>1 / 2^32\<close>.
\<close>

definition uniform_real :: "draws \<Rightarrow> nat \<Rightarrow> real \<Rightarrow> real \<Rightarrow> real" where
  "uniform_real gen pos lo hi = lo + (hi - lo) * (real (gen pos mod 4294967296) / 4294967296)"

text \<open>
  \<open>std::shuffle\<close>: the standard fixes only that the result is a permutation chosen by
  the generator; this is the usual exchange of position \<open>i\<close> with a drawn position
  at or below it.
\<close>

fun shuffle_loop :: "draws \<Rightarrow> nat \<Rightarrow> nat \<Rightarrow> 'a list \<Rightarrow> 'a list" where
  "shuffle_loop gen i 0 xs = xs"
| "shuffle_loop gen i (Suc m) xs =
     (let j = uniform_index gen i (Suc i)
      in shuffle_loop gen (Suc i) m (xs[i := xs ! j, j := xs ! i]))"

definition shuffle :: "draws \<Rightarrow> 'a list \<Rightarrow> 'a list" where
  "shuffle gen xs = shuffle_loop gen 1 (length xs - 1) xs"

subsection \<open>K-Means in Lab space\<close>

text \<open>\<open>std::numeric_limits<float>::max()\<close>.\<close>

definition FLT_MAX :: real where
  "FLT_MAX = 340282346638528859811704183484516925440"

text \<open>
  The inner loop over the centroids for one pixel: \<open>j\<close> is the index of the centroid at
  the head of the list, \<open>min_dist\<close> and \<open>closest\<close> are the loop's variables.
\<close>

fun closest_centroid :: "Lab \<Rightarrow> Lab list \<Rightarrow> nat \<Rightarrow> real \<Rightarrow> nat \<Rightarrow> nat" where
  "closest_centroid p [] j min_dist closest = closest"
| "closest_centroid p (c # cs) j min_dist closest =
     (let dist = ciede2000 p c
      in if dist < min_dist then closest_centroid p cs (Suc j) dist j
         else closest_centroid p cs (Suc j) min_dist closest)"

text \<open>
  The assignment pass. Each pixel's entry depends on that pixel and the centroids only,
  so the OpenMP loop computes this list whatever its schedule.
\<close>

definition assign_pixels :: "Lab list \<Rightarrow> Lab list \<Rightarrow> nat list" where
  "assign_pixels pixels centroids = map (\<lambda>p. closest_centroid p centroids 0 FLT_MAX 0) pixels"

text \<open>The accumulation loop over the pixels and their assignments.\<close>

fun accumulate :: "Lab list \<Rightarrow> nat list \<Rightarrow> Lab list \<Rightarrow> nat list \<Rightarrow> Lab list \<times> nat list" where
  "accumulate (p # ps) (cluster # as) new_centroids cluster_sizes =
     accumulate ps as
       (new_centroids[cluster :=
          Lab (lab_L (new_centroids ! cluster) + lab_L p)
              (lab_a (new_centroids ! cluster) + lab_a p)
              (lab_b (new_centroids ! cluster) + lab_b p)])
       (cluster_sizes[cluster := cluster_sizes ! cluster + 1])"
| "accumulate _ _ new_centroids cluster_sizes = (new_centroids, cluster_sizes)"

text \<open>
  The loop over the clusters that divides each sum by its count, or reseeds an empty
  cluster with a drawn pixel. It returns the new centroids and the position of the next draw.
\<close>

fun update_centroids :: "draws \<Rightarrow> nat \<Rightarrow> Lab list \<Rightarrow> Lab list \<Rightarrow> nat list \<Rightarrow> Lab list \<times> nat" where
  "update_centroids gen pos pixels (s # totals) (n # sizes) =
     (if n > 0 then
        (let (rest, pos') = update_centroids gen pos pixels totals sizes
         in (Lab (lab_L s / real n) (lab_a s / real n) (lab_b s / real n) # rest, pos'))
      else
        (let (rest, pos') = update_centroids gen (Suc pos) pixels totals sizes
         in (pixels ! uniform_index gen pos (length pixels) # rest, pos')))"
| "update_centroids gen pos pixels _ _ = ([], pos)"

definition converged :: "Lab list \<Rightarrow> Lab list \<Rightarrow> bool" where
  "converged centroids new_centroids =
     list_all (\<lambda>(c, n). \<not> ciede2000 c n > 1) (zip centroids new_centroids)"

text \<open>
  The iteration loop; the first numeric argument is the number of iterations left
  (\<open>max_iters - iter\<close>), \<open>pos\<close> is the position of the next draw.
\<close>

fun kmeans_loop :: "draws \<Rightarrow> Lab list \<Rightarrow> nat \<Rightarrow> nat \<Rightarrow> Lab list \<Rightarrow> nat list \<Rightarrow> Lab list \<times> nat list" where
  "kmeans_loop gen pixels 0 pos centroids cluster_sizes = (centroids, cluster_sizes)"
| "kmeans_loop gen pixels (Suc iters) pos centroids cluster_sizes =
     (let k = length centroids;
          assignments = assign_pixels pixels centroids;
          (totals, sizes) = accumulate pixels assignments (replicate k (Lab 0 0 0)) (replicate k 0);
          (new_centroids, pos') = update_centroids gen pos pixels totals sizes
      in if converged centroids new_centroids then (new_centroids, sizes)
         else kmeans_loop gen pixels iters pos' new_centroids sizes)"

definition init_centroids :: "draws \<Rightarrow> Lab list \<Rightarrow> nat \<Rightarrow> Lab list" where
  "init_centroids gen pixels k = map (\<lambda>i. pixels ! uniform_index gen i (length pixels)) [0..<k]"

definition kmeans_lab :: "draws \<Rightarrow> Lab list \<Rightarrow> int \<Rightarrow> int \<Rightarrow> Cluster list" where
  "kmeans_lab gen pixels k max_iters =
     (if pixels = [] \<or> k \<le> 0 then []
      else let centroids = init_centroids gen pixels (nat k);
               (cs, sizes) = kmeans_loop gen pixels (nat max_iters) (nat k) centroids (replicate (nat k) 0)
           in map (\<lambda>(c, s). Cluster c s) (zip cs sizes))"

subsection \<open>Decoding, resampling and filtering\<close>

text \<open>
  The exceptions of \<open>extract_colors\<close>: the four \<open>std::invalid_argument\<close> of the header
  checks in their order, the \<open>std::runtime_error\<close> for too few valid pixels, the
  \<open>std::length_error\<close> of \<open>reserve\<close> with a negative count converted to \<open>size_t\<close>; the
  last two stand for undefined behaviour, a signed overflow and a read past the buffer.
\<close>

datatype error =
    EmptyImageData
  | InvalidImageFormat
  | InvalidImageSize
  | UnsupportedChannels
  | InsufficientValidPixels
  | LengthError
  | IntOverflow
  | OutOfBounds

definition fits_int :: "int \<Rightarrow> bool" where
  "fits_int v = (- 2147483648 \<le> v \<and> v \<le> 2147483647)"

text \<open>\<open>*reinterpret_cast<const int*>(p)\<close> on a little-endian machine with 32-bit \<open>int\<close>.\<close>

definition read_int :: "8 word list \<Rightarrow> int" where
  "read_int bs =
     sint (word_of_nat (unat (bs ! 0) + 256 * unat (bs ! 1) + 65536 * unat (bs ! 2)
                        + 16777216 * unat (bs ! 3)) :: 32 word)"

text \<open>
  The body of the two resampling loops at row \<open>y\<close> and column \<open>x\<close>: \<open>Inr None\<close> is a
  pixel skipped by \<open>continue\<close>, \<open>Inr (Some p)\<close> the pixel appended to \<open>scaled_pixels\<close>.
\<close>

definition sample_pixel ::
  "8 word list \<Rightarrow> int \<Rightarrow> int \<Rightarrow> int \<Rightarrow> int \<Rightarrow> int \<Rightarrow> int \<Rightarrow> int \<Rightarrow> error + RGB option" where
  "sample_pixel pixels width height channels target_width target_height y x =
     (if \<not> fits_int (x * width) \<or> \<not> fits_int (y * height) then Inl IntOverflow
      else let src_x = x * width div target_width;
               src_y = y * height div target_height
           in if \<not> fits_int (src_y * width) \<or> \<not> fits_int (src_y * width + src_x)
                 \<or> \<not> fits_int ((src_y * width + src_x) * channels) then Inl IntOverflow
              else let src_idx = (src_y * width + src_x) * channels
                   in if src_idx < 0 \<or> int (length pixels) < src_idx + channels then Inl OutOfBounds
                      else let r = pixels ! nat src_idx;
                               g = pixels ! nat (src_idx + 1);
                               b = pixels ! nat (src_idx + 2)
                           in if channels = 4 \<and> pixels ! nat (src_idx + 3) < 128 then Inr None
                              else let brightness = (unat r + unat g + unat b) div 3
                                   in if brightness > 240 \<or> brightness < 20 then Inr None
                                      else Inr (Some (RGB r g b)))"

text \<open>The appends to \<open>scaled_pixels\<close>, in loop order; the first error ends the run.\<close>

fun collect :: "(error + RGB option) list \<Rightarrow> error + RGB list" where
  "collect [] = Inr []"
| "collect (Inl e # rest) = Inl e"
| "collect (Inr None # rest) = collect rest"
| "collect (Inr (Some p) # rest) = (case collect rest of Inl e \<Rightarrow> Inl e | Inr ps \<Rightarrow> Inr (p # ps))"

text \<open>
  \<open>extract_colors\<close> from its entry to the end of the resampling loops: the header
  checks and the list \<open>scaled_pixels\<close>.
\<close>

definition scale_and_filter :: "8 word list \<Rightarrow> int \<Rightarrow> error + RGB list" where
  "scale_and_filter data max_image_size =
     (let data_size = length data
      in if data_size = 0 then Inl EmptyImageData
         else if data_size < 8 then Inl InvalidImageFormat
         else let width = read_int data;
                  height = read_int (drop 4 data);
                  pixels = drop 8 data;
                  pixel_data_size = data_size - 8
              in if width \<le> 0 \<or> height \<le> 0 then Inl InvalidImageSize
                 else if \<not> fits_int (width * height) then Inl IntOverflow
                 else let channels = sint (word_of_nat (pixel_data_size div nat (width * height)) :: 32 word)
                      in if channels \<noteq> 3 \<and> channels \<noteq> 4 then Inl UnsupportedChannels
                         else let target_width = min width max_image_size;
                                  target_height = min height max_image_size
                              in if \<not> fits_int (target_width * target_height) then Inl IntOverflow
                                 else collect (concat (map (\<lambda>y. map (\<lambda>x.
                                        sample_pixel pixels width height channels target_width target_height y x)
                                        [0..target_width - 1]) [0..target_height - 1])))"

subsection \<open>Palette selection\<close>

text \<open>
  \<open>std::sort\<close> with the comparison \<open>a.size > b.size\<close>: descending population. The order
  of clusters of equal population is the implementation's; here they keep their order.
\<close>

definition sort_clusters :: "Cluster list \<Rightarrow> Cluster list" where
  "sort_clusters clusters = sort_key (\<lambda>c. - int (csize c)) clusters"

text \<open>The first selection loop; \<open>n\<close> is \<open>static_cast<size_t>(num_colors)\<close>.\<close>

fun phase1 :: "nat \<Rightarrow> real \<Rightarrow> Cluster list \<Rightarrow> Lab list \<Rightarrow> Lab list" where
  "phase1 n min_distance [] selected_colors = selected_colors"
| "phase1 n min_distance (cluster # clusters) selected_colors =
     (if length selected_colors \<ge> n then selected_colors
      else let is_different =
                 list_all (\<lambda>selected. \<not> ciede2000 (centroid cluster) selected < min_distance) selected_colors
           in if is_different then phase1 n min_distance clusters (selected_colors @ [centroid cluster])
              else phase1 n min_distance clusters selected_colors)"

text \<open>The second selection loop, with the lowered threshold.\<close>

fun phase2 :: "nat \<Rightarrow> Cluster list \<Rightarrow> Lab list \<Rightarrow> Lab list" where
  "phase2 n [] selected_colors = selected_colors"
| "phase2 n (cluster # clusters) selected_colors =
     (if length selected_colors \<ge> n then selected_colors
      else let already_selected =
                 list_ex (\<lambda>selected. ciede2000 (centroid cluster) selected < 0.1) selected_colors
           in if \<not> already_selected then
                (let is_different =
                       list_all (\<lambda>selected. \<not> ciede2000 (centroid cluster) selected < 10) selected_colors
                 in if is_different then phase2 n clusters (selected_colors @ [centroid cluster])
                    else phase2 n clusters selected_colors)
              else phase2 n clusters selected_colors)"

text \<open>
  One iteration of the fallback loop, on the position of the next draw and the selected
  colours. The three draws of a constructor call are read in the order of the arguments.
\<close>

definition phase3_step :: "draws \<Rightarrow> real \<Rightarrow> nat \<times> Lab list \<Rightarrow> nat \<times> Lab list" where
  "phase3_step gen min_distance st =
     (let pos = fst st; selected_colors = snd st;
          (new_lab, pos1) =
            (if selected_colors = [] then
               (Lab (uniform_real gen pos 20 80) (uniform_real gen (pos + 1) (- 100) 100)
                    (uniform_real gen (pos + 2) (- 100) 100), pos + 3)
             else let avg_L = sum_list (map lab_L selected_colors) / real (length selected_colors);
                      avg_a = sum_list (map lab_a selected_colors) / real (length selected_colors);
                      avg_b = sum_list (map lab_b selected_colors) / real (length selected_colors)
                  in (Lab (100 - avg_L) (- avg_a) (- avg_b), pos));
          is_different =
            list_all (\<lambda>selected. \<not> ciede2000 new_lab selected < min_distance) selected_colors
      in if is_different then (pos1, selected_colors @ [new_lab])
         else let perturbed =
                    Lab (max 0 (min 100 (lab_L new_lab + uniform_real gen pos1 (- 30) 30)))
                        (max (- 128) (min 127 (lab_a new_lab + uniform_real gen (pos1 + 1) (- 30) 30 * 1.5)))
                        (max (- 128) (min 127 (lab_b new_lab + uniform_real gen (pos1 + 2) (- 30) 30 * 1.5)))
              in (pos1 + 3, selected_colors @ [perturbed]))"

lemma length_phase3_step: "length (snd (phase3_step gen min_distance st)) = Suc (length (snd st))"
  by (simp add: phase3_step_def Let_def split: prod.splits)

text \<open>The fallback loop \<open>while (selected_colors.size() < n)\<close>.\<close>

function phase3 :: "draws \<Rightarrow> nat \<Rightarrow> real \<Rightarrow> nat \<times> Lab list \<Rightarrow> Lab list" where
  "phase3 gen n min_distance st =
     (if length (snd st) < n then phase3 gen n min_distance (phase3_step gen min_distance st)
      else snd st)"
  by pat_completeness auto
termination
  by (relation "measure (\<lambda>(gen, n, min_distance, st). n - length (snd st))")
     (auto simp: length_phase3_step)

declare phase3.simps [simp del]

subsection \<open>The main extraction function\<close>

text \<open>The draws of the three generators that one call of \<open>extract_colors\<close> seeds.\<close>

record entropy =
  shuffle_gen :: draws
  kmeans_gen :: draws
  fallback_gen :: draws

definition extract_colors ::
  "entropy \<Rightarrow> 8 word list \<Rightarrow> int \<Rightarrow> real \<Rightarrow> int \<Rightarrow> error + (8 word \<times> 8 word \<times> 8 word) list" where
  "extract_colors ent image_data num_colors min_distance max_image_size =
     (case scale_and_filter image_data max_image_size of
        Inl e \<Rightarrow> Inl e
      | Inr scaled_pixels \<Rightarrow>
          if length scaled_pixels < 10 then Inl InsufficientValidPixels
          else let sampled = (if length scaled_pixels > 5000
                              then take 5000 (shuffle (shuffle_gen ent) scaled_pixels)
                              else scaled_pixels);
                   lab_pixels = map (\<lambda>rgb. rgb_to_lab (rgb_r rgb) (rgb_g rgb) (rgb_b rgb)) sampled;
                   clusters = sort_clusters (kmeans_lab (kmeans_gen ent) lab_pixels 8 30)
               in if num_colors < 0 then Inl LengthError
                  else let n = nat num_colors;
                           selected1 = phase1 n min_distance clusters [];
                           selected2 = (if length selected1 < n then phase2 n clusters selected1
                                        else selected1);
                           selected3 = phase3 (fallback_gen ent) n min_distance (0, selected2)
                       in Inr (map (\<lambda>lab. case lab_to_rgb lab of RGB r g b \<Rightarrow> (r, g, b))
                                   (take n selected3)))"


subsection \<open>Test data\<close>

text \<open>
  A 10 by 1 RGB image of mid-grey pixels, with its 8-byte header: the width and the
  height as little-endian 32-bit integers.
\<close>

definition grey_image :: "8 word list" where
  "grey_image = [10, 0, 0, 0, 1, 0, 0, 0] @ replicate 30 128"

text \<open>
  A 15000000 by 1 RGB image of mid-grey pixels, and a 15000000 by 1 RGBA image in which
  every pixel has the colour (200, 100, 50) and alpha 0. The header bytes
  \<open>192, 225, 228, 0\<close> are the width 15000000.
\<close>

definition wide_image :: "8 word list" where
  "wide_image = [192, 225, 228, 0, 1, 0, 0, 0] @ replicate 45000000 128"

definition wide_transparent_image :: "8 word list" where
  "wide_transparent_image =
     [192, 225, 228, 0, 1, 0, 0, 0] @ concat (replicate 15000000 [200, 100, 50, 0])"

text \<open>Sequences of drawn values, and the draws of the three generators of one call.\<close>

definition zero_gen :: draws where
  "zero_gen = (\<lambda>i. 0)"

definition late_gen :: draws where
  "late_gen = (\<lambda>i. if i < 4 then 0 else i)"

definition count_gen :: draws where
  "count_gen = (\<lambda>i. i)"

definition test_entropy :: entropy where
  "test_entropy = \<lparr>shuffle_gen = zero_gen, kmeans_gen = zero_gen, fallback_gen = late_gen\<rparr>"

text \<open>Grey samples, and clusters with grey centroids in descending population.\<close>

definition grey_samples :: "Lab list" where
  "grey_samples = [Lab 50 0 0, Lab 60 0 0]"

definition spread_samples :: "Lab list" where
  "spread_samples = [Lab 0 0 0, Lab 100 0 0]"

definition grey_clusters :: "Cluster list" where
  "grey_clusters = [Cluster (Lab 0 0 0) 7, Cluster (Lab 100 0 0) 5, Cluster (Lab 100 0 0) 3]"

section \<open>Properties\<close>

subsection \<open>The shuffle is a permutation\<close>

lemma uniform_index_less: "0 < n \<Longrightarrow> uniform_index gen pos n < n"
  by (simp add: uniform_index_def min_less_iff_disj)

lemma shuffle_loop_permutes:
  "i + m \<le> length xs \<Longrightarrow>
     mset (shuffle_loop gen i m xs) = mset xs \<and> length (shuffle_loop gen i m xs) = length xs"
proof (induction m arbitrary: i xs)
  case 0
  then show ?case by simp
next
  case (Suc m)
  define j where "j = uniform_index gen i (Suc i)"
  have j: "j < length xs" "i < length xs"
    using Suc.prems by (simp_all add: j_def uniform_index_def)
  have sw: "mset (xs[i := xs ! j, j := xs ! i]) = mset xs"
    using j by (simp add: mset_swap)
  have "Suc i + m \<le> length (xs[i := xs ! j, j := xs ! i])" using Suc.prems by simp
  from Suc.IH[OF this] sw show ?case
    by (simp add: Let_def j_def[symmetric])
qed

lemma shuffle_permutes: "mset (shuffle gen xs) = mset xs \<and> length (shuffle gen xs) = length xs"
proof (cases xs)
  case Nil
  then show ?thesis by (simp add: shuffle_def)
next
  case (Cons x ys)
  then have "1 + (length xs - 1) \<le> length xs" by simp
  from shuffle_loop_permutes[OF this] show ?thesis by (simp add: shuffle_def)
qed

subsection \<open>The colour difference: symmetry and sign\<close>

lemma radicand_parts:
  "ciede2000_radicand (Lab L1 a1 b1) (Lab L2 a2 b2) =
    (let a1_prime = primed a1 b1 a2 b2;
         a2_prime = primed a2 b2 a1 b1;
         C1_prime = sqrt (a1_prime * a1_prime + b1 * b1);
         C2_prime = sqrt (a2_prime * a2_prime + b2 * b2);
         h1_prime = atan2_deg b1 a1_prime;
         h2_prime = atan2_deg b2 a2_prime
     in weighted_sum (L2 - L1) (C2_prime - C1_prime)
          (2 * sqrt (C1_prime * C2_prime) * sin (hue_delta C1_prime C2_prime h1_prime h2_prime * pi / 360))
          ((L1 + L2) / 2) ((C1_prime + C2_prime) / 2)
          (hue_mean C1_prime C2_prime h1_prime h2_prime))"
  unfolding ciede2000_radicand_def weighted_sum_def hue_delta_def hue_mean_def primed_def Let_def Lab.sel
  by (simp only: add.commute[of "sqrt (a2 * a2 + b2 * b2)" "sqrt (a1 * a1 + b1 * b1)"])

lemma hue_delta_swap: "hue_delta C2 C1 h2 h1 = - hue_delta C1 C2 h1 h2"
  by (auto simp: hue_delta_def Let_def mult.commute)

lemma hue_mean_swap: "hue_mean C2 C1 h2 h1 = hue_mean C1 C2 h1 h2"
  by (auto simp: hue_mean_def Let_def mult.commute add.commute abs_minus_commute)

lemma weighted_sum_neg: "weighted_sum (- dL) (- dC) (- dH) La Ca ha = weighted_sum dL dC dH La Ca ha"
  by (simp add: weighted_sum_def Let_def)

lemma radicand_swap: "ciede2000_radicand (Lab L1 a1 b1) (Lab L2 a2 b2) = ciede2000_radicand (Lab L2 a2 b2) (Lab L1 a1 b1)"
proof -
  define p1 where "p1 = primed a1 b1 a2 b2"
  define p2 where "p2 = primed a2 b2 a1 b1"
  define C1 where "C1 = sqrt (p1 * p1 + b1 * b1)"
  define C2 where "C2 = sqrt (p2 * p2 + b2 * b2)"
  define h1 where "h1 = atan2_deg b1 p1"
  define h2 where "h2 = atan2_deg b2 p2"
  have "ciede2000_radicand (Lab L2 a2 b2) (Lab L1 a1 b1) =
     weighted_sum (L1 - L2) (C1 - C2) (2 * sqrt (C2 * C1) * sin (hue_delta C2 C1 h2 h1 * pi / 360))
       ((L2 + L1) / 2) ((C2 + C1) / 2) (hue_mean C2 C1 h2 h1)"
    by (simp only: radicand_parts Let_def p1_def p2_def C1_def C2_def h1_def h2_def)
  also have "\<dots> = weighted_sum (- (L2 - L1)) (- (C2 - C1)) (- (2 * sqrt (C1 * C2) * sin (hue_delta C1 C2 h1 h2 * pi / 360)))
       ((L1 + L2) / 2) ((C1 + C2) / 2) (hue_mean C1 C2 h1 h2)"
  proof -
    have a: "hue_delta C2 C1 h2 h1 = - hue_delta C1 C2 h1 h2" by (rule hue_delta_swap)
    have b: "hue_mean C2 C1 h2 h1 = hue_mean C1 C2 h1 h2" by (rule hue_mean_swap)
    have c: "C2 * C1 = C1 * C2" "C2 + C1 = C1 + C2" "L2 + L1 = L1 + L2" by simp_all
    show ?thesis unfolding a b c by simp
  qed
  also have "\<dots> = ciede2000_radicand (Lab L1 a1 b1) (Lab L2 a2 b2)"
    by (simp only: weighted_sum_neg radicand_parts Let_def p1_def p2_def C1_def C2_def h1_def h2_def)
  finally show ?thesis by simp
qed

lemma quad_nonneg:
  fixes x y R :: real
  assumes "\<bar>R\<bar> \<le> 2"
  shows "0 \<le> x * x + y * y + R * x * y"
proof -
  have "\<bar>R * (x * y)\<bar> \<le> 2 * \<bar>x * y\<bar>"
    using assms by (simp add: abs_mult mult_right_mono)
  moreover have "2 * \<bar>x * y\<bar> \<le> x * x + y * y"
    using sum_squares_bound[of x y] sum_squares_bound[of "-x" y] by (auto simp: abs_if power2_eq_square)
  ultimately show ?thesis by (simp add: mult.assoc abs_le_iff) 
qed

lemma weighted_sum_nonneg:
  assumes "0 \<le> Ca"
  shows "0 \<le> weighted_sum dL dC dH La Ca ha"
proof -
  define c7 where "c7 = Ca ^ 7"
  define rc where "rc = sqrt (c7 / (c7 + 6103515625))"
  define sn where "sn = sin (2 * (30 * exp (- (((ha - 275) / 25) ^ 2))) * pi / 180)"
  define R where "R = - sn * (2 * rc)"
  define x where "x = dL / (1 + (0.015 * (La - 50) * (La - 50)) / sqrt (20 + (La - 50) * (La - 50)))"
  define y where "y = dC / (1 + 0.045 * Ca)"
  define z where "z = dH / (1 + 0.015 * Ca * (1 - 0.17 * cos (ha * pi / 180 - pi / 6) + 0.24 * cos (2 * (ha * pi / 180))
               + 0.32 * cos (3 * (ha * pi / 180) + pi / 30) - 0.20 * cos (4 * (ha * pi / 180) - 1.099557)))"
  have c7: "0 \<le> c7" using assms by (simp add: c7_def)
  then have "c7 / (c7 + 6103515625) \<le> 1" by (simp add: divide_le_eq)
  then have rc1: "rc \<le> 1" by (simp add: rc_def)
  have rc0: "0 \<le> rc" using c7 by (simp add: rc_def)
  have "\<bar>sn\<bar> \<le> 1" by (simp add: sn_def)
  then have "\<bar>sn\<bar> * rc \<le> 1 * 1"
    using rc0 rc1 by (intro mult_mono) auto
  then have R2: "\<bar>R\<bar> \<le> 2"
    using rc0 by (simp add: R_def abs_mult)
  have eq: "weighted_sum dL dC dH La Ca ha = x * x + y * y + z * z + R * y * z"
    unfolding weighted_sum_def Let_def R_def sn_def rc_def c7_def x_def y_def z_def ..
  have "0 \<le> x * x + (y * y + z * z + R * y * z)"
    using quad_nonneg[OF R2, of y z] by (simp add: add_nonneg_nonneg)
  then show ?thesis
    unfolding eq by (simp add: add.assoc)
qed

lemma radicand_nonneg: "0 \<le> ciede2000_radicand A B"
  by (cases A; cases B) (simp add: radicand_parts Let_def weighted_sum_nonneg)

lemma radicand_self: "ciede2000_radicand A A = 0"
  by (cases A) (simp add: radicand_parts Let_def weighted_sum_def hue_delta_def)




lemma atan2_deg_0: "atan2_deg 0 0 = 0"
  by (simp add: atan2_deg_def atan2_def)

lemma ciede2000_grey:
  "ciede2000 (Lab L1 0 0) (Lab L2 0 0) =
     \<bar>L2 - L1\<bar> / (1 + (0.015 * ((L1 + L2) / 2 - 50) * ((L1 + L2) / 2 - 50)) / sqrt (20 + ((L1 + L2) / 2 - 50) * ((L1 + L2) / 2 - 50)))"
proof -
  define q where "q = (L1 + L2) / 2 - 50"
  define S where "S = 1 + (0.015 * q * q) / sqrt (20 + q * q)"
  have "0 \<le> (0.015 * q * q) / sqrt (20 + q * q)"
    by (intro divide_nonneg_nonneg) (simp_all add: mult.assoc)
  then have S: "0 < S" unfolding S_def by linarith
  have "ciede2000_radicand (Lab L1 0 0) (Lab L2 0 0) = (L2 - L1) / S * ((L2 - L1) / S)"
    by (simp add: radicand_parts Let_def primed_def atan2_deg_0 hue_delta_def hue_mean_def weighted_sum_def S_def q_def)
  then have "ciede2000 (Lab L1 0 0) (Lab L2 0 0) = \<bar>(L2 - L1) / S\<bar>"
    by (simp add: ciede2000_def real_sqrt_divide abs_divide)
  also have "\<dots> = \<bar>L2 - L1\<bar> / S" using S by (simp add: abs_divide)
  finally show ?thesis by (simp add: S_def q_def)
qed

lemma ciede2000_nonneg: "0 \<le> ciede2000 A B"
  by (simp add: ciede2000_def radicand_nonneg)

lemma ciede2000_commute: "ciede2000 A B = ciede2000 B A"
  by (cases A; cases B) (simp add: ciede2000_def radicand_swap)

text \<open>
  C4. The CIEDE2000 distance is symmetric: for all Lab values \<open>A\<close> and \<open>B\<close> the distance
  from \<open>A\<close> to \<open>B\<close> equals the distance from \<open>B\<close> to \<open>A\<close>. All branches are covered: a zero
  chroma, and a hue difference or hue sum that crosses the boundary of 0 and 360 degrees.
\<close>

theorem ciede2000_symmetric: "ciede2000 A B = ciede2000 B A"
proof (cases A; cases B)
  fix L1 a1 b1 L2 a2 b2
  assume "A = Lab L1 a1 b1" and "B = Lab L2 a2 b2"
  then show ?thesis
    unfolding ciede2000_def by (simp only: radicand_swap [of L1 a1 b1 L2 a2 b2])
qed

text \<open>
  C5. The CIEDE2000 distance is non-negative for all pairs of Lab values, and the
  distance of a colour to itself is zero: the argument of the final square root is
  never negative.
\<close>

theorem ciede2000_nonneg_and_self_zero:
  "0 \<le> ciede2000_radicand A B \<and> 0 \<le> ciede2000 A B \<and> ciede2000 A A = 0"
proof (intro conjI)
  show "0 \<le> ciede2000_radicand A B" by (rule radicand_nonneg)
  then show "0 \<le> ciede2000 A B" by (simp add: ciede2000_def)
  show "ciede2000 A A = 0" by (simp add: ciede2000_def radicand_self)
qed


subsection \<open>The fallback loop\<close>



lemma length_phase3: "length (phase3 gen n md st) = max n (length (snd st))"
proof (induction gen n md st rule: phase3.induct)
  case (1 gen n md st)
  show ?case
  proof (cases "length (snd st) < n")
    case True
    have "phase3 gen n md st = phase3 gen n md (phase3_step gen md st)"
      using True by (subst phase3.simps) simp
    then show ?thesis using "1.IH"[OF True] True by (simp add: length_phase3_step)
  next
    case False
    then show ?thesis by (subst phase3.simps) simp
  qed
qed





subsection \<open>The size of the palette\<close>

text \<open>
  A result \<open>Inr px\<close> of the sampler means that the image passed every header check
  (at least 8 bytes, positive width and height, 3 or 4 channels) and that no index
  computation of the resampling loops left the range of \<open>int\<close>. With at least 10 pixels
  the palette then has as many entries as were asked for (\<open>extract_colors_length\<close>).
\<close>

lemma scale_and_filter_valid:
  assumes "scale_and_filter data m = Inr px"
  shows "8 \<le> length data \<and> 0 < read_int data \<and> 0 < read_int (drop 4 data)
       \<and> (let channels = sint (word_of_nat ((length data - 8) div nat (read_int data * read_int (drop 4 data))) :: 32 word)
          in channels = 3 \<or> channels = 4)"
  using assms by (auto simp: scale_and_filter_def Let_def split: if_splits)

lemma extract_colors_length:
  assumes "scale_and_filter data m = Inr px" "10 \<le> length px" "0 \<le> n"
  shows "\<exists>pal. extract_colors ent data n md m = Inr pal \<and> length pal = nat n"
  using assms by (simp add: extract_colors_def Let_def length_phase3)

lemma phase1_zero: "phase1 0 md cs [] = []"
  by (cases cs) simp_all

lemma phase3_zero: "phase3 gen 0 md (pos, []) = []"
  by (subst phase3.simps) simp

lemma grey_image_pixels:
  "scale_and_filter grey_image 150 =
     Inr [RGB 128 128 128, RGB 128 128 128, RGB 128 128 128, RGB 128 128 128, RGB 128 128 128,
          RGB 128 128 128, RGB 128 128 128, RGB 128 128 128, RGB 128 128 128, RGB 128 128 128]"
  by (simp add: scale_and_filter_def grey_image_def read_int_def Let_def fits_int_def upto.simps
      sample_pixel_def)

text \<open>
  C10. \<open>extract_colors\<close> does not validate \<open>num_colors\<close>: with \<open>num_colors = 0\<close> on an image
  that passes the header checks and the pixel count check it raises no error and returns
  the empty palette.
\<close>

theorem extract_colors_zero_colors:
  assumes "scale_and_filter data m = Inr px" and "10 \<le> length px"
  shows "extract_colors ent data 0 md m = Inr []"
  using assms by (simp add: extract_colors_def Let_def phase1_zero phase3_zero)

theorem extract_colors_zero_colors_witness:
  "scale_and_filter grey_image 150 =
     Inr [RGB 128 128 128, RGB 128 128 128, RGB 128 128 128, RGB 128 128 128, RGB 128 128 128,
          RGB 128 128 128, RGB 128 128 128, RGB 128 128 128, RGB 128 128 128, RGB 128 128 128]
   \<and> extract_colors test_entropy grey_image 0 20 150 = Inr []"
  using extract_colors_zero_colors [OF grey_image_pixels, of
      test_entropy 20]
    grey_image_pixels
  by simp


subsection \<open>Primary selection keeps the colours apart\<close>

lemma apart_snoc:
  assumes inv: "\<forall>i<length sel. \<forall>j<length sel. i \<noteq> j \<longrightarrow> md \<le> ciede2000 (sel ! i) (sel ! j)"
    and new: "list_all (\<lambda>s. \<not> ciede2000 c s < md) sel"
  shows "\<forall>i<length (sel @ [c]). \<forall>j<length (sel @ [c]). i \<noteq> j \<longrightarrow> md \<le> ciede2000 ((sel @ [c]) ! i) ((sel @ [c]) ! j)"
proof (intro allI impI)
  fix i j
  assume i: "i < length (sel @ [c])" and j: "j < length (sel @ [c])" and ne: "i \<noteq> j"
  have far: "md \<le> ciede2000 c (sel ! k)" if "k < length sel" for k
    using new that by (auto simp: list_all_iff not_less)
  consider "i < length sel" "j < length sel" | "i < length sel" "j = length sel"
    | "i = length sel" "j < length sel"
    using i j ne by (auto simp: less_Suc_eq)
  then show "md \<le> ciede2000 ((sel @ [c]) ! i) ((sel @ [c]) ! j)"
  proof cases
    case 1
    then show ?thesis using inv ne by (simp add: nth_append)
  next
    case 2
    then show ?thesis using far[of i] by (simp add: nth_append ciede2000_commute[of "sel ! i" c])
  next
    case 3
    then show ?thesis using far[of j] by (simp add: nth_append)
  qed
qed

lemma phase1_apart:
  assumes "\<forall>i<length sel. \<forall>j<length sel. i \<noteq> j \<longrightarrow> md \<le> ciede2000 (sel ! i) (sel ! j)"
  shows "\<forall>i<length (phase1 n md cs sel). \<forall>j<length (phase1 n md cs sel).
           i \<noteq> j \<longrightarrow> md \<le> ciede2000 (phase1 n md cs sel ! i) (phase1 n md cs sel ! j)"
  using assms
proof (induction cs arbitrary: sel)
  case Nil
  then show ?case by simp
next
  case (Cons c cs)
  show ?case
  proof (cases "n \<le> length sel")
    case True
    then show ?thesis using Cons.prems by simp
  next
    case False
    show ?thesis
    proof (cases "list_all (\<lambda>s. \<not> ciede2000 (centroid c) s < md) sel")
      case True
      have "phase1 n md (c # cs) sel = phase1 n md cs (sel @ [centroid c])"
        using False True by simp
      moreover note Cons.IH[OF apart_snoc[OF Cons.prems True]]
      ultimately show ?thesis by simp
    next
      case nt: False
      have "phase1 n md (c # cs) sel = phase1 n md cs sel"
        using False nt by simp
      then show ?thesis using Cons.IH[OF Cons.prems] by simp
    qed
  qed
qed

lemma phase1_grey: "phase1 3 20 grey_clusters [] = [Lab 0 0 0, Lab 100 0 0]"
  by (simp add: grey_clusters_def ciede2000_grey)


text \<open>
  C6. After the primary selection (the greedy walk over the sorted clusters, started
  from the empty list) every pair of accepted centroids has CIEDE2000 distance at least
  \<open>min_distance\<close>. The property is an invariant of the loop, for every cluster list, every
  \<open>n\<close> and every \<open>min_distance\<close>: if it holds of the colours selected so far, it holds
  after the loop; and it is maintained by each acceptance step, which appends a centroid
  that passed the test against every selected colour.
\<close>

theorem phase1_pairwise_distance:
  "(\<forall>i<length (phase1 n md cs []). \<forall>j<length (phase1 n md cs []).
      i \<noteq> j \<longrightarrow> md \<le> ciede2000 (phase1 n md cs [] ! i) (phase1 n md cs [] ! j))
   \<and> ((\<forall>i<length sel. \<forall>j<length sel. i \<noteq> j \<longrightarrow> md \<le> ciede2000 (sel ! i) (sel ! j))
        \<longrightarrow> (\<forall>i<length (phase1 n md cs sel). \<forall>j<length (phase1 n md cs sel).
               i \<noteq> j \<longrightarrow> md \<le> ciede2000 (phase1 n md cs sel ! i) (phase1 n md cs sel ! j)))
   \<and> ((\<forall>i<length sel. \<forall>j<length sel. i \<noteq> j \<longrightarrow> md \<le> ciede2000 (sel ! i) (sel ! j))
        \<and> list_all (\<lambda>s. \<not> ciede2000 c s < md) sel
        \<longrightarrow> (\<forall>i<length (sel @ [c]). \<forall>j<length (sel @ [c]).
               i \<noteq> j \<longrightarrow> md \<le> ciede2000 ((sel @ [c]) ! i) ((sel @ [c]) ! j)))"
proof (intro conjI impI)
  have "\<forall>i<length ([]::Lab list). \<forall>j<length ([]::Lab list).
          i \<noteq> j \<longrightarrow> md \<le> ciede2000 ([] ! i) ([] ! j)"
    by simp
  then show "\<forall>i<length (phase1 n md cs []). \<forall>j<length (phase1 n md cs []).
      i \<noteq> j \<longrightarrow> md \<le> ciede2000 (phase1 n md cs [] ! i) (phase1 n md cs [] ! j)"
    by (rule phase1_apart)
next
  assume "\<forall>i<length sel. \<forall>j<length sel. i \<noteq> j \<longrightarrow> md \<le> ciede2000 (sel ! i) (sel ! j)"
  then show "\<forall>i<length (phase1 n md cs sel). \<forall>j<length (phase1 n md cs sel).
      i \<noteq> j \<longrightarrow> md \<le> ciede2000 (phase1 n md cs sel ! i) (phase1 n md cs sel ! j)"
    by (rule phase1_apart)
next
  assume "(\<forall>i<length sel. \<forall>j<length sel. i \<noteq> j \<longrightarrow> md \<le> ciede2000 (sel ! i) (sel ! j))
        \<and> list_all (\<lambda>s. \<not> ciede2000 c s < md) sel"
  then show "\<forall>i<length (sel @ [c]). \<forall>j<length (sel @ [c]).
      i \<noteq> j \<longrightarrow> md \<le> ciede2000 ((sel @ [c]) ! i) ((sel @ [c]) ! j)"
    using apart_snoc[of sel md c] by blast
qed

theorem phase1_pairwise_distance_witness:
  "phase1 3 20 grey_clusters [] = [Lab 0 0 0, Lab 100 0 0]
   \<and> 20 \<le> ciede2000 (Lab 0 0 0) (Lab 100 0 0)
   \<and> phase1 3 20 grey_clusters [Lab 0 0 0] = [Lab 0 0 0, Lab 100 0 0]
   \<and> list_all (\<lambda>s. \<not> ciede2000 (Lab 100 0 0) s < 20) [Lab 0 0 0]
   \<and> 20 \<le> ciede2000 (Lab 100 0 0) (Lab 0 0 0)"
proof -
  note inst = phase1_pairwise_distance[of 3 20 grey_clusters "[Lab 0 0 0]" "Lab 100 0 0"]
  have one: "\<forall>i<length [Lab 0 0 0]. \<forall>j<length [Lab 0 0 0].
      i \<noteq> j \<longrightarrow> 20 \<le> ciede2000 ([Lab 0 0 0] ! i) ([Lab 0 0 0] ! j)"
    by simp
  have far: "list_all (\<lambda>s. \<not> ciede2000 (Lab 100 0 0) s < 20) [Lab 0 0 0]"
    by (simp add: ciede2000_grey)
  have from_one: "phase1 3 20 grey_clusters [Lab 0 0 0] = [Lab 0 0 0, Lab 100 0 0]"
    by (simp add: grey_clusters_def ciede2000_grey)
  from inst have "\<forall>i<length (phase1 3 20 grey_clusters []). \<forall>j<length (phase1 3 20 grey_clusters []).
      i \<noteq> j \<longrightarrow> 20 \<le> ciede2000 (phase1 3 20 grey_clusters [] ! i) (phase1 3 20 grey_clusters [] ! j)"
    by (rule conjunct1)
  from this[rule_format, of 0 1]
  have a: "20 \<le> ciede2000 (Lab 0 0 0) (Lab 100 0 0)"
    by (simp add: phase1_grey)
  from inst one have "\<forall>i<length (phase1 3 20 grey_clusters [Lab 0 0 0]).
      \<forall>j<length (phase1 3 20 grey_clusters [Lab 0 0 0]).
      i \<noteq> j \<longrightarrow> 20 \<le> ciede2000 (phase1 3 20 grey_clusters [Lab 0 0 0] ! i)
                                (phase1 3 20 grey_clusters [Lab 0 0 0] ! j)"
    by blast
  from this[rule_format, of 1 0]
  have b: "20 \<le> ciede2000 (Lab 100 0 0) (Lab 0 0 0)"
    by (simp add: from_one)
  from inst one far have "\<forall>i<length ([Lab 0 0 0] @ [Lab 100 0 0]). \<forall>j<length ([Lab 0 0 0] @ [Lab 100 0 0]).
      i \<noteq> j \<longrightarrow> 20 \<le> ciede2000 (([Lab 0 0 0] @ [Lab 100 0 0]) ! i) (([Lab 0 0 0] @ [Lab 100 0 0]) ! j)"
    by blast
  from this[rule_format, of 1 0]
  have "20 \<le> ciede2000 (Lab 100 0 0) (Lab 0 0 0)"
    by simp
  with a b far from_one show ?thesis by (simp add: phase1_grey)
qed

subsection \<open>K-Means: populations and the random draws\<close>

lemma closest_centroid_bound:
  "closest < j + length cs \<Longrightarrow> closest_centroid p cs j md closest < j + length cs"
proof (induction cs arbitrary: j md closest)
  case Nil
  then show ?case by simp
next
  case (Cons c cs)
  have a: "closest_centroid p cs (Suc j) (ciede2000 p c) j < Suc j + length cs"
    by (rule Cons.IH) simp
  have b: "closest_centroid p cs (Suc j) md closest < Suc j + length cs"
    by (rule Cons.IH) (use Cons.prems in simp)
  show ?case using a b by (simp add: Let_def)
qed

lemma assign_pixels_bound:
  assumes "centroids \<noteq> []"
  shows "\<forall>c\<in>set (assign_pixels pixels centroids). c < length centroids"
  using assms closest_centroid_bound[of 0 0 centroids _ FLT_MAX]
  by (auto simp: assign_pixels_def)

lemma length_assign_pixels: "length (assign_pixels pixels centroids) = length pixels"
  by (simp add: assign_pixels_def)

lemma accumulate_sizes:
  assumes "\<forall>c\<in>set as. c < length sizes" "length as = length ps"
  shows "length (fst (accumulate ps as cents sizes)) = length cents
       \<and> length (snd (accumulate ps as cents sizes)) = length sizes
       \<and> sum_list (snd (accumulate ps as cents sizes)) = sum_list sizes + length ps"
  using assms
proof (induction ps as cents sizes rule: accumulate.induct)
  case (1 p ps cluster as new_centroids cluster_sizes)
  have c: "cluster < length cluster_sizes" using "1.prems" by simp
  have "sum_list (cluster_sizes[cluster := cluster_sizes ! cluster + 1]) = sum_list cluster_sizes + 1"
    using c by (simp add: sum_list_update)
  moreover have "\<forall>c\<in>set as. c < length (cluster_sizes[cluster := cluster_sizes ! cluster + 1])"
    using "1.prems" by simp
  moreover have "length as = length ps" using "1.prems" by simp
  ultimately show ?case using "1.IH" by simp
qed simp_all

lemma length_update_centroids:
  "length totals = length sizes \<Longrightarrow> length (fst (update_centroids gen pos pixels totals sizes)) = length sizes"
  by (induction gen pos pixels totals sizes rule: update_centroids.induct)
     (auto simp: Let_def split: prod.splits)

lemma kmeans_loop_Suc:
  "kmeans_loop gen pixels (Suc iters) pos centroids sizes =
    (let acc = accumulate pixels (assign_pixels pixels centroids)
                 (replicate (length centroids) (Lab 0 0 0)) (replicate (length centroids) 0);
         upd = update_centroids gen pos pixels (fst acc) (snd acc)
     in if converged centroids (fst upd) then (fst upd, snd acc)
        else kmeans_loop gen pixels iters (snd upd) (fst upd) (snd acc))"
  by (simp add: Let_def split: prod.splits)

lemma kmeans_loop_sizes:
  assumes "centroids \<noteq> []"
  shows "length (fst (kmeans_loop gen pixels (Suc iters) pos centroids sizes)) = length centroids
       \<and> length (snd (kmeans_loop gen pixels (Suc iters) pos centroids sizes)) = length centroids
       \<and> sum_list (snd (kmeans_loop gen pixels (Suc iters) pos centroids sizes)) = length pixels"
  using assms
proof (induction iters arbitrary: pos centroids sizes)
  case 0
  let ?k = "length centroids"
  let ?acc = "accumulate pixels (assign_pixels pixels centroids) (replicate ?k (Lab 0 0 0)) (replicate ?k 0)"
  let ?upd = "update_centroids gen pos pixels (fst ?acc) (snd ?acc)"
  have acc: "length (fst ?acc) = ?k \<and> length (snd ?acc) = ?k \<and> sum_list (snd ?acc) = length pixels"
    using accumulate_sizes[of "assign_pixels pixels centroids" "replicate ?k 0" pixels "replicate ?k (Lab 0 0 0)"]
      assign_pixels_bound[OF "0.prems", of pixels]
    by (simp add: length_assign_pixels)
  then have len: "length (fst ?upd) = ?k"
    using length_update_centroids[of "fst ?acc" "snd ?acc" gen pos pixels] by simp
  show ?case
    unfolding kmeans_loop_Suc Let_def using acc len by simp
next
  case (Suc iters)
  let ?k = "length centroids"
  let ?acc = "accumulate pixels (assign_pixels pixels centroids) (replicate ?k (Lab 0 0 0)) (replicate ?k 0)"
  let ?upd = "update_centroids gen pos pixels (fst ?acc) (snd ?acc)"
  have acc: "length (fst ?acc) = ?k \<and> length (snd ?acc) = ?k \<and> sum_list (snd ?acc) = length pixels"
    using accumulate_sizes[of "assign_pixels pixels centroids" "replicate ?k 0" pixels "replicate ?k (Lab 0 0 0)"]
      assign_pixels_bound[OF Suc.prems, of pixels]
    by (simp add: length_assign_pixels)
  then have len: "length (fst ?upd) = ?k"
    using length_update_centroids[of "fst ?acc" "snd ?acc" gen pos pixels] by simp
  then have ne: "fst ?upd \<noteq> []" using Suc.prems by auto
  show ?case
    unfolding kmeans_loop_Suc[of gen pixels "Suc iters"] Let_def
    using Suc.IH[OF ne, of "snd ?upd" "snd ?acc"] acc len by simp
qed

lemma kmeans_lab_sizes:
  assumes "pixels \<noteq> []" "1 \<le> k" "1 \<le> max_iters"
  shows "length (kmeans_lab gen pixels k max_iters) = nat k
       \<and> sum_list (map csize (kmeans_lab gen pixels k max_iters)) = length pixels"
proof -
  obtain it where it: "nat max_iters = Suc it" using assms(3) by (cases "nat max_iters") auto
  have ne: "init_centroids gen pixels (nat k) \<noteq> []" using assms(2) by (simp add: init_centroids_def)
  have len: "length (init_centroids gen pixels (nat k)) = nat k" by (simp add: init_centroids_def)
  let ?r = "kmeans_loop gen pixels (Suc it) (nat k) (init_centroids gen pixels (nat k)) (replicate (nat k) 0)"
  have r: "length (fst ?r) = nat k \<and> length (snd ?r) = nat k \<and> sum_list (snd ?r) = length pixels"
    using kmeans_loop_sizes[OF ne, of gen pixels it "nat k" "replicate (nat k) 0"] len by simp
  have eq: "kmeans_lab gen pixels k max_iters = map (\<lambda>(c, s). Cluster c s) (zip (fst ?r) (snd ?r))"
    using assms(1,2) it by (simp add: kmeans_lab_def Let_def split: prod.splits)
  have "map csize (map (\<lambda>(c, s). Cluster c s) (zip (fst ?r) (snd ?r))) = map snd (zip (fst ?r) (snd ?r))"
    by (simp add: case_prod_unfold)
  also have "\<dots> = snd ?r" using r by (simp add: map_snd_zip)
  finally show ?thesis using r eq by simp
qed

lemma length_accumulate:
  "length (fst (accumulate ps as cents sizes)) = length cents
   \<and> length (snd (accumulate ps as cents sizes)) = length sizes"
  by (induction ps as cents sizes rule: accumulate.induct) simp_all

lemma update_centroids_pos:
  "pos \<le> snd (update_centroids gen pos pixels totals sizes)
   \<and> snd (update_centroids gen pos pixels totals sizes) \<le> pos + length sizes"
  by (induction gen pos pixels totals sizes rule: update_centroids.induct)
     (auto simp: Let_def split: prod.splits)

lemma update_centroids_agree:
  assumes "\<forall>i. pos \<le> i \<and> i < pos + length sizes \<longrightarrow> g1 i = g2 i"
  shows "update_centroids g1 pos pixels totals sizes = update_centroids g2 pos pixels totals sizes"
  using assms
proof (induction g1 pos pixels totals sizes rule: update_centroids.induct)
  case (1 gen pos pixels s totals n sizes)
  show ?case
  proof (cases "n > 0")
    case True
    have "update_centroids gen pos pixels totals sizes = update_centroids g2 pos pixels totals sizes"
      using "1.IH"(1)[OF True] "1.prems" by simp
    then show ?thesis using True by simp
  next
    case False
    have "update_centroids gen (Suc pos) pixels totals sizes = update_centroids g2 (Suc pos) pixels totals sizes"
      using "1.IH"(2)[OF False] "1.prems" by simp
    moreover have "gen pos = g2 pos" using "1.prems" by simp
    ultimately show ?thesis using False by (simp add: uniform_index_def)
  qed
qed simp_all

lemma kmeans_loop_agree:
  assumes "\<forall>i. pos \<le> i \<and> i < pos + iters * length centroids \<longrightarrow> g1 i = g2 i"
  shows "kmeans_loop g1 pixels iters pos centroids sizes = kmeans_loop g2 pixels iters pos centroids sizes"
  using assms
proof (induction iters arbitrary: pos centroids sizes)
  case 0
  then show ?case by simp
next
  case (Suc iters)
  let ?k = "length centroids"
  let ?acc = "accumulate pixels (assign_pixels pixels centroids) (replicate ?k (Lab 0 0 0)) (replicate ?k 0)"
  let ?upd = "update_centroids g1 pos pixels (fst ?acc) (snd ?acc)"
  have la: "length (fst ?acc) = ?k" "length (snd ?acc) = ?k"
    using length_accumulate[of pixels "assign_pixels pixels centroids" "replicate ?k (Lab 0 0 0)" "replicate ?k 0"]
    by simp_all
  have upd: "update_centroids g2 pos pixels (fst ?acc) (snd ?acc) = ?upd"
    using update_centroids_agree[of pos "snd ?acc" g1 g2 pixels "fst ?acc"] Suc.prems la by simp
  have len: "length (fst ?upd) = ?k"
    using length_update_centroids[of "fst ?acc" "snd ?acc" g1 pos pixels] la by simp
  have pos: "pos \<le> snd ?upd" "snd ?upd \<le> pos + ?k"
    using update_centroids_pos[of pos g1 pixels "fst ?acc" "snd ?acc"] la by simp_all
  have "\<forall>i. snd ?upd \<le> i \<and> i < snd ?upd + iters * length (fst ?upd) \<longrightarrow> g1 i = g2 i"
    using Suc.prems pos len by auto
  from Suc.IH[OF this]
  have rec: "kmeans_loop g1 pixels iters (snd ?upd) (fst ?upd) (snd ?acc)
           = kmeans_loop g2 pixels iters (snd ?upd) (fst ?upd) (snd ?acc)" .
  show ?case
    unfolding kmeans_loop_Suc Let_def upd using rec by simp
qed

lemma init_centroids_agree:
  assumes "\<forall>i<k. g1 i = g2 i"
  shows "init_centroids g1 pixels k = init_centroids g2 pixels k"
  using assms by (simp add: init_centroids_def uniform_index_def)

lemma kmeans_lab_agree:
  assumes "\<forall>i < nat k + nat max_iters * nat k. g1 i = g2 i"
  shows "kmeans_lab g1 pixels k max_iters = kmeans_lab g2 pixels k max_iters"
proof -
  have init: "init_centroids g1 pixels (nat k) = init_centroids g2 pixels (nat k)"
    using assms by (intro init_centroids_agree) simp
  have "\<forall>i. nat k \<le> i \<and> i < nat k + nat max_iters * length (init_centroids g1 pixels (nat k)) \<longrightarrow> g1 i = g2 i"
    using assms by (simp add: init_centroids_def)
  from kmeans_loop_agree[OF this]
  show ?thesis unfolding kmeans_lab_def init by simp
qed


lemma update_centroids_reseeded:
  assumes "pixels \<noteq> []"
  shows "list_all2 (\<lambda>c n. n = 0 \<longrightarrow> c \<in> set pixels)
           (fst (update_centroids gen pos pixels totals sizes)) (take (length totals) sizes)"
  using assms
proof (induction gen pos pixels totals sizes rule: update_centroids.induct)
  case (1 gen pos pixels s totals n sizes)
  show ?case
  proof (cases "n > 0")
    case True
    then show ?thesis using "1.IH"(1)[OF True "1.prems"]
      by (auto simp: Let_def split: prod.splits)
  next
    case False
    have "pixels ! uniform_index gen pos (length pixels) \<in> set pixels"
      using "1.prems" by (simp add: uniform_index_less)
    then show ?thesis using False "1.IH"(2)[OF False "1.prems"]
      by (auto simp: Let_def split: prod.splits)
  qed
qed simp_all

lemma kmeans_loop_reseeded:
  assumes "centroids \<noteq> []" "pixels \<noteq> []"
  shows "list_all2 (\<lambda>c n. n = 0 \<longrightarrow> c \<in> set pixels)
           (fst (kmeans_loop gen pixels (Suc iters) pos centroids sizes))
           (snd (kmeans_loop gen pixels (Suc iters) pos centroids sizes))"
  using assms(1)
proof (induction iters arbitrary: pos centroids sizes)
  case 0
  let ?k = "length centroids"
  let ?acc = "accumulate pixels (assign_pixels pixels centroids) (replicate ?k (Lab 0 0 0)) (replicate ?k 0)"
  have la: "length (fst ?acc) = ?k" "length (snd ?acc) = ?k"
    using length_accumulate[of pixels "assign_pixels pixels centroids" "replicate ?k (Lab 0 0 0)" "replicate ?k 0"]
    by simp_all
  show ?case
    unfolding kmeans_loop_Suc Let_def
    using update_centroids_reseeded[OF assms(2), of gen pos "fst ?acc" "snd ?acc"] la by simp
next
  case (Suc iters)
  let ?k = "length centroids"
  let ?acc = "accumulate pixels (assign_pixels pixels centroids) (replicate ?k (Lab 0 0 0)) (replicate ?k 0)"
  let ?upd = "update_centroids gen pos pixels (fst ?acc) (snd ?acc)"
  have la: "length (fst ?acc) = ?k" "length (snd ?acc) = ?k"
    using length_accumulate[of pixels "assign_pixels pixels centroids" "replicate ?k (Lab 0 0 0)" "replicate ?k 0"]
    by simp_all
  then have len: "length (fst ?upd) = ?k"
    using length_update_centroids[of "fst ?acc" "snd ?acc" gen pos pixels] by simp
  then have ne: "fst ?upd \<noteq> []" using Suc.prems by auto
  show ?case
    unfolding kmeans_loop_Suc[of gen pixels "Suc iters"] Let_def
    using Suc.IH[OF ne, of "snd ?upd" "snd ?acc"]
      update_centroids_reseeded[OF assms(2), of gen pos "fst ?acc" "snd ?acc"] la by simp
qed

lemma kmeans_lab_reseeded:
  assumes "pixels \<noteq> []" "1 \<le> k" "1 \<le> max_iters"
  shows "\<forall>c \<in> set (kmeans_lab gen pixels k max_iters). csize c = 0 \<longrightarrow> centroid c \<in> set pixels"
proof -
  obtain it where it: "nat max_iters = Suc it" using assms(3) by (cases "nat max_iters") auto
  have ne: "init_centroids gen pixels (nat k) \<noteq> []" using assms(2) by (simp add: init_centroids_def)
  let ?r = "kmeans_loop gen pixels (Suc it) (nat k) (init_centroids gen pixels (nat k)) (replicate (nat k) 0)"
  have eq: "kmeans_lab gen pixels k max_iters = map (\<lambda>(c, s). Cluster c s) (zip (fst ?r) (snd ?r))"
    using assms(1,2) it by (simp add: kmeans_lab_def Let_def split: prod.splits)
  have "\<forall>(c, n) \<in> set (zip (fst ?r) (snd ?r)). n = 0 \<longrightarrow> c \<in> set pixels"
    using kmeans_loop_reseeded[OF ne assms(1), of gen it "nat k" "replicate (nat k) 0"]
    by (simp add: list_all2_iff)
  then show ?thesis unfolding eq by auto
qed

text \<open>
  \<open>kmeans_lab\<close> has no seed: it reads its draws from a generator that it seeds itself.
  Of the drawn values, only those of the first \<open>k + max_iters * k\<close> calls of the
  distribution can matter, \<open>k\<close> for the initial centroids and at most \<open>k\<close> reseeded
  clusters in each iteration (\<open>kmeans_lab_agree\<close>); and they do matter: on the same two
  samples, two sequences of draws give different centroids and populations.
\<close>

lemma grey_distances:
  "ciede2000 (Lab 0 0 0) (Lab 0 0 0) = 0" "ciede2000 (Lab 100 0 0) (Lab 100 0 0) = 0"
  "ciede2000 (Lab 0 0 0) (Lab 100 0 0) = 100" "ciede2000 (Lab 100 0 0) (Lab 0 0 0) = 100"
  by (simp_all add: ciede2000_grey)

lemma assign_zero:
  "assign_pixels [Lab 0 0 0, Lab 100 0 0] [Lab 0 0 0, Lab 0 0 0] = [0, 0]"
  by (simp add: assign_pixels_def FLT_MAX_def grey_distances Let_def)

lemma assign_count:
  "assign_pixels [Lab 0 0 0, Lab 100 0 0] [Lab 0 0 0, Lab 100 0 0] = [0, 1]"
  by (simp add: assign_pixels_def FLT_MAX_def grey_distances Let_def)

lemma kmeans_loop_once:
  assumes "length centroids = 2"
    and "assign_pixels pixels centroids = as"
    and "accumulate pixels as (replicate 2 (Lab 0 0 0)) (replicate 2 0) = (totals, sizes)"
    and "update_centroids gen pos pixels totals sizes = (new_centroids, pos')"
  shows "kmeans_loop gen pixels (Suc 0) pos centroids old_sizes = (new_centroids, sizes)"
  unfolding kmeans_loop_Suc Let_def assms fst_conv snd_conv kmeans_loop.simps(1) by simp

lemma nat_values: "nat (1::int) = Suc 0" "nat (2::int) = 2"
  by simp_all

lemma kmeans_lab_zero_gen:
  "kmeans_lab zero_gen spread_samples 2 1 = [Cluster (Lab 50 0 0) 2, Cluster (Lab 0 0 0) 0]"
proof -
  have init: "init_centroids zero_gen [Lab 0 0 0, Lab 100 0 0] 2 = [Lab 0 0 0, Lab 0 0 0]"
    by (simp add: init_centroids_def uniform_index_def zero_gen_def upt_rec)
  have acc: "accumulate [Lab 0 0 0, Lab 100 0 0] [0, 0] (replicate 2 (Lab 0 0 0)) (replicate 2 0)
      = ([Lab 100 0 0, Lab 0 0 0], [2, 0])"
    by (simp add: numeral_2_eq_2)
  have upd: "update_centroids zero_gen 2 [Lab 0 0 0, Lab 100 0 0] [Lab 100 0 0, Lab 0 0 0] [2, 0]
      = ([Lab 50 0 0, Lab 0 0 0], 3)"
    by (simp add: uniform_index_def zero_gen_def)
  have loop: "kmeans_loop zero_gen [Lab 0 0 0, Lab 100 0 0] (Suc 0) 2 [Lab 0 0 0, Lab 0 0 0] (replicate 2 0)
      = ([Lab 50 0 0, Lab 0 0 0], [2, 0])"
    by (rule kmeans_loop_once[OF _ assign_zero acc upd]) simp
  show ?thesis
    unfolding kmeans_lab_def spread_samples_def nat_values init loop Let_def by simp
qed

lemma kmeans_lab_count_gen:
  "kmeans_lab count_gen spread_samples 2 1 = [Cluster (Lab 0 0 0) 1, Cluster (Lab 100 0 0) 1]"
proof -
  have init: "init_centroids count_gen [Lab 0 0 0, Lab 100 0 0] 2 = [Lab 0 0 0, Lab 100 0 0]"
    by (simp add: init_centroids_def uniform_index_def count_gen_def upt_rec)
  have acc: "accumulate [Lab 0 0 0, Lab 100 0 0] [0, 1] (replicate 2 (Lab 0 0 0)) (replicate 2 0)
      = ([Lab 0 0 0, Lab 100 0 0], [1, 1])"
    by (simp add: numeral_2_eq_2)
  have upd: "update_centroids count_gen 2 [Lab 0 0 0, Lab 100 0 0] [Lab 0 0 0, Lab 100 0 0] [1, 1]
      = ([Lab 0 0 0, Lab 100 0 0], 2)"
    by simp
  have loop: "kmeans_loop count_gen [Lab 0 0 0, Lab 100 0 0] (Suc 0) 2 [Lab 0 0 0, Lab 100 0 0] (replicate 2 0)
      = ([Lab 0 0 0, Lab 100 0 0], [1, 1])"
    by (rule kmeans_loop_once[OF _ assign_count acc upd]) simp
  show ?thesis
    unfolding kmeans_lab_def spread_samples_def nat_values init loop Let_def by simp
qed

lemma kmeans_lab_draws_matter:
  "kmeans_lab zero_gen spread_samples 2 1 \<noteq> kmeans_lab count_gen spread_samples 2 1"
  by (simp add: kmeans_lab_zero_gen kmeans_lab_count_gen)

text \<open>
  C9, as amended. For every non-empty sample list, every \<open>k\<close> of at least 1 and every
  \<open>max_iters\<close> of at least 1, \<open>kmeans_lab\<close> returns \<open>k\<close> clusters whose population counts
  sum to the number of samples, and a cluster reported with population 0 carries a
  reseeded centroid, which is one of the samples. (As stated, without the bound on
  \<open>max_iters\<close>, the claim fails: with no iteration there is no assignment pass and every
  count is 0.)
\<close>

theorem kmeans_lab_population_sum:
  assumes "pixels \<noteq> []" and "1 \<le> k" and "1 \<le> max_iters"
  shows "length (kmeans_lab gen pixels k max_iters) = nat k
       \<and> sum_list (map csize (kmeans_lab gen pixels k max_iters)) = length pixels
       \<and> (\<forall>c \<in> set (kmeans_lab gen pixels k max_iters). csize c = 0 \<longrightarrow> centroid c \<in> set pixels)"
  using kmeans_lab_sizes[OF assms] kmeans_lab_reseeded[OF assms] by simp

theorem kmeans_lab_population_sum_witness:
  "grey_samples \<noteq> [] \<and> length (kmeans_lab zero_gen grey_samples 2 30) = 2
   \<and> sum_list (map csize (kmeans_lab zero_gen grey_samples 2 30)) = 2"
  using kmeans_lab_population_sum[of grey_samples 2 30 zero_gen]
  by (simp add: grey_samples_def)

theorem kmeans_lab_population_counterexample:
  "grey_samples \<noteq> [] \<and> kmeans_lab zero_gen grey_samples 1 0 = [Cluster (Lab 50 0 0) 0]
   \<and> sum_list (map csize (kmeans_lab zero_gen grey_samples 1 0)) \<noteq> length grey_samples"
  by (simp add: kmeans_lab_def init_centroids_def uniform_index_def zero_gen_def grey_samples_def)


subsection \<open>Too few valid pixels\<close>

text \<open>
  The error for too few valid pixels is raised by the count check alone: a call ends
  with it exactly when the sampler returns fewer than 10 pixels (\<open>insufficient_iff\<close>).
  Where the index arithmetic stays within \<open>int\<close>, an RGBA image whose sampled pixels all
  have alpha below 128 yields no pixel (\<open>scale_and_filter_transparent\<close>).
\<close>

lemma collect_error: "collect es = Inl e \<Longrightarrow> Inl e \<in> set es"
  by (induction es rule: collect.induct) (auto split: sum.splits)

lemma collect_all_skipped: "\<forall>e\<in>set es. e = Inr None \<Longrightarrow> collect es = Inr []"
  by (induction es rule: collect.induct) auto

lemma sample_pixel_error:
  "sample_pixel pixels w h c tw th y x = Inl e \<Longrightarrow> e = IntOverflow \<or> e = OutOfBounds"
  by (auto simp: sample_pixel_def Let_def split: if_splits)

lemma scale_and_filter_error:
  "scale_and_filter data m \<noteq> Inl InsufficientValidPixels"
proof
  assume a: "scale_and_filter data m = Inl InsufficientValidPixels"
  then obtain pixels w h c tw th where
    "collect (concat (map (\<lambda>y. map (\<lambda>x. sample_pixel pixels w h c tw th y x) [0..tw - 1]) [0..th - 1]))
      = Inl InsufficientValidPixels"
    by (auto simp: scale_and_filter_def Let_def split: if_splits)
  from collect_error[OF this] obtain y x where
    "sample_pixel pixels w h c tw th y x = Inl InsufficientValidPixels"
    by auto
  from sample_pixel_error[OF this] show False by simp
qed

lemma insufficient_iff:
  "extract_colors ent data n md m = Inl InsufficientValidPixels
     \<longleftrightarrow> (\<exists>px. scale_and_filter data m = Inr px \<and> length px < 10)"
proof (cases "scale_and_filter data m")
  case (Inl e)
  then have "e \<noteq> InsufficientValidPixels" using scale_and_filter_error[of data m] by auto
  then show ?thesis using Inl by (simp add: extract_colors_def)
next
  case (Inr px)
  then show ?thesis by (auto simp: extract_colors_def Let_def)
qed

lemma div_bound:
  fixes x w tw :: int
  assumes "0 \<le> x" "x < tw" "0 < w"
  shows "0 \<le> x * w div tw \<and> x * w div tw < w"
proof -
  have tw: "0 < tw" using assms by simp
  have "0 \<le> x * w" using assms by simp
  then have a: "0 \<le> x * w div tw" using tw by (simp add: pos_imp_zdiv_nonneg_iff)
  have lt: "x * w < tw * w" using assms by simp
  have "x * w div tw < w"
  proof (rule ccontr)
    assume "\<not> x * w div tw < w"
    then have "tw * w \<le> tw * (x * w div tw)" using tw by (simp add: mult_left_mono)
    moreover have "tw * (x * w div tw) \<le> x * w"
      using mult_div_mod_eq[of tw "x * w"] pos_mod_sign[OF tw, of "x * w"] by linarith
    ultimately show False using lt by linarith
  qed
  with a show ?thesis by simp
qed

lemma sample_pixel_transparent:
  fixes w h tw th m x y :: int
  assumes x: "0 \<le> x" "x < tw" and y: "0 \<le> y" "y < th"
    and tw: "tw \<le> w" "tw \<le> m" and th: "th \<le> h" "th \<le> m"
    and fit: "m * w \<le> 2147483647" "m * h \<le> 2147483647" "4 * w * h \<le> 2147483647"
    and len: "length pixels = 4 * nat w * nat h"
    and alpha: "\<forall>i < nat w * nat h. pixels ! (4 * i + 3) < 128"
  shows "sample_pixel pixels w h 4 tw th y x = Inr None"
proof -
  have w: "0 < w" and h: "0 < h" using x y tw th by linarith+
  define sx where "sx = x * w div tw"
  define sy where "sy = y * h div th"
  have sx: "0 \<le> sx" "sx < w" using div_bound[OF x w] by (simp_all add: sx_def)
  have sy: "0 \<le> sy" "sy < h" using div_bound[OF y h] by (simp_all add: sy_def)
  have xw: "0 \<le> x * w" "x * w \<le> m * w"
    using x tw w by (simp_all add: mult_right_mono)
  have yh: "0 \<le> y * h" "y * h \<le> m * h"
    using y th h by (simp_all add: mult_right_mono)
  have syw: "0 \<le> sy * w" "sy * w \<le> (h - 1) * w"
    using sy w by (simp_all add: mult_right_mono)
  define p where "p = sy * w + sx"
  have p: "0 \<le> p" "p < w * h"
    using syw sx by (simp_all add: p_def algebra_simps)
  have wh: "w * h \<le> 4 * w * h" using w h by simp
  have f1: "fits_int (x * w)" "fits_int (y * h)"
    using xw yh fit by (simp_all add: fits_int_def)
  have f2: "fits_int (sy * w)" "fits_int p" "fits_int (p * 4)"
    using syw p sx fit wh by (simp_all add: fits_int_def p_def)
  have np: "nat p < nat w * nat h"
    using p w h by (simp add: nat_mult_distrib[symmetric] nat_less_iff)
  have inb: "\<not> (p * 4 < 0 \<or> int (length pixels) < p * 4 + 4)"
    using p len w h np by (simp add: nat_mult_distrib[symmetric])
  have "pixels ! nat (p * 4 + 3) < 128"
  proof -
    have "nat (p * 4 + 3) = 4 * nat p + 3" using p by (simp add: nat_add_distrib nat_mult_distrib)
    then show ?thesis using alpha np by simp
  qed
  moreover have "sample_pixel pixels w h 4 tw th y x =
     (if \<not> fits_int (x * w) \<or> \<not> fits_int (y * h) then Inl IntOverflow
      else if \<not> fits_int (sy * w) \<or> \<not> fits_int p \<or> \<not> fits_int (p * 4) then Inl IntOverflow
      else if p * 4 < 0 \<or> int (length pixels) < p * 4 + 4 then Inl OutOfBounds
      else if (4::int) = 4 \<and> pixels ! nat (p * 4 + 3) < 128 then Inr None
      else if (unat (pixels ! nat (p * 4)) + unat (pixels ! nat (p * 4 + 1)) + unat (pixels ! nat (p * 4 + 2))) div 3 > 240
            \<or> (unat (pixels ! nat (p * 4)) + unat (pixels ! nat (p * 4 + 1)) + unat (pixels ! nat (p * 4 + 2))) div 3 < 20
           then Inr None
      else Inr (Some (RGB (pixels ! nat (p * 4)) (pixels ! nat (p * 4 + 1)) (pixels ! nat (p * 4 + 2)))))"
    unfolding sample_pixel_def Let_def sx_def sy_def p_def ..
  ultimately show ?thesis
    using f1 f2 inb by simp
qed


lemma scale_and_filter_transparent:
  assumes rd: "read_int data = w" "read_int (drop 4 data) = h" and pos: "0 < w" "0 < h"
    and len: "length data = 8 + 4 * nat w * nat h"
    and alpha: "\<forall>i < nat w * nat h. data ! (8 + 4 * i + 3) < 128"
    and m: "0 < m" and fit: "m * w \<le> 2147483647" "m * h \<le> 2147483647" "4 * w * h \<le> 2147483647"
  shows "scale_and_filter data m = Inr []"
proof -
  define pixels where "pixels = drop 8 data"
  define tw where "tw = min w m"
  define th where "th = min h m"
  have plen: "length pixels = 4 * nat w * nat h" using len by (simp add: pixels_def)
  have palpha: "\<forall>i < nat w * nat h. pixels ! (4 * i + 3) < 128"
    using alpha len by (simp add: pixels_def add.assoc)
  have wh: "0 < w * h" "w * h \<le> 4 * w * h" using pos by simp_all
  then have fwh: "fits_int (w * h)" using fit by (simp add: fits_int_def)
  have nwh: "nat (w * h) = nat w * nat h" using pos by (simp add: nat_mult_distrib)
  have "0 < nat w * nat h" using pos by simp
  then have "(length data - 8) div nat (w * h) = 4"
    unfolding nwh len by (simp add: mult.assoc)
  then have ch: "sint (word_of_nat ((length data - 8) div nat (w * h)) :: 32 word) = 4"
    by simp
  have t: "0 < tw" "tw \<le> w" "tw \<le> m" "0 < th" "th \<le> h" "th \<le> m"
    using pos m by (simp_all add: tw_def th_def)
  have "0 \<le> tw * th" using t by simp
  moreover have "tw * th \<le> w * h" using t pos by (intro mult_mono) simp_all
  ultimately have ft: "fits_int (tw * th)" using wh fit by (simp add: fits_int_def)
  have skip: "\<forall>e \<in> set (concat (map (\<lambda>y. map (\<lambda>x. sample_pixel pixels w h 4 tw th y x) [0..tw - 1]) [0..th - 1])).
      e = Inr None"
    using sample_pixel_transparent[OF _ _ _ _ t(2,3,5,6) fit plen palpha]
    by auto
  have "scale_and_filter data m =
      collect (concat (map (\<lambda>y. map (\<lambda>x. sample_pixel pixels w h 4 tw th y x) [0..tw - 1]) [0..th - 1]))"
    using len rd pos fwh ch ft
    by (simp add: scale_and_filter_def Let_def pixels_def tw_def th_def)
  then show ?thesis using collect_all_skipped[OF skip] by simp
qed

text \<open>
  The filter of one RGBA pixel, with its thresholds: the pixel is skipped when its alpha
  is below 128 or the integer mean of its colour channels is above 240 or below 20.
\<close>

lemma sample_pixel_filter:
  "sample_pixel [r, g, b, a] 1 1 4 1 1 0 0 =
     (if a < 128 \<or> (unat r + unat g + unat b) div 3 > 240 \<or> (unat r + unat g + unat b) div 3 < 20
      then Inr None else Inr (Some (RGB r g b)))"
  by (simp add: sample_pixel_def fits_int_def)

subsection \<open>Wide images: the index overflow\<close>

text \<open>
  The resampling loop computes \<open>x * width\<close> in \<open>int\<close>. With the default
  \<open>max_image_size\<close> of 150 and a width of 15000000 the product fits for \<open>x\<close> up to 143
  and overflows at \<open>x = 144\<close>.
\<close>

lemma wide_header:
  "read_int wide_image = 15000000 \<and> read_int (drop 4 wide_image) = 1
   \<and> length wide_image = 8 + 3 * 15000000 \<and> drop 8 wide_image = replicate 45000000 128"
  by (simp add: wide_image_def read_int_def)

lemma wide_pixel_kept:
  assumes "0 \<le> x" "x \<le> 143"
  shows "sample_pixel (replicate 45000000 128) 15000000 1 3 150 1 0 x = Inr (Some (RGB 128 128 128))"
proof -
  have d: "x * 15000000 div 150 = x * 100000" by simp
  have f: "fits_int (x * 15000000)" "fits_int (x * 100000)" "fits_int (x * 100000 * 3)"
    using assms by (simp_all add: fits_int_def)
  have i: "nat (x * 100000 * 3) < 45000000" "nat (x * 100000 * 3 + 1) < 45000000"
    "nat (x * 100000 * 3 + 2) < 45000000" "0 \<le> x * 100000 * 3" "x * 100000 * 3 + 3 \<le> 45000000"
    using assms by simp_all
  show ?thesis
    unfolding sample_pixel_def Let_def using f i assms
    by (simp add: d fits_int_def)
qed

lemma wide_pixel_overflow:
  assumes "144 \<le> x"
  shows "sample_pixel pixels 15000000 1 3 150 1 0 x = Inl IntOverflow"
  using assms by (simp add: sample_pixel_def fits_int_def)

lemma collect_first_error:
  "(\<forall>r \<in> set rs. \<exists>p. r = Inr p) \<Longrightarrow> collect (rs @ Inl e # rest) = Inl e"
  by (induction rs rule: collect.induct) auto

lemma upto_150_split: "[0..149] = [0..144 - 1] @ 144 # [144 + 1..149]"
proof -
  have "[0..149] = [0..144 - 1] @ [144..149]"
    by (rule upto_split1) simp_all
  moreover have "[144..149] = 144 # [144 + 1..149]"
    by (rule upto_rec1) simp
  ultimately show ?thesis by (simp only:)
qed

lemma wide_scale: "scale_and_filter wide_image 150 = Inl IntOverflow"
proof -
  let ?f = "\<lambda>x. sample_pixel (replicate 45000000 128) 15000000 1 3 150 1 0 x"
  have "map ?f [0..149] = map ?f [0..144 - 1] @ Inl IntOverflow # map ?f [144 + 1..149]"
    unfolding upto_150_split by (simp only: map_append list.map wide_pixel_overflow[OF order_refl])
  moreover have "\<forall>r \<in> set (map ?f [0..144 - 1]). \<exists>p. r = Inr p"
    by (auto simp: wide_pixel_kept)
  ultimately have c: "collect (map ?f [0..149]) = Inl IntOverflow"
    by (simp only: collect_first_error)
  have "scale_and_filter wide_image 150 = collect (concat (map (\<lambda>y. map (\<lambda>x.
      sample_pixel (replicate 45000000 128) 15000000 1 3 150 1 y x) [0..150 - 1]) [0..1 - 1]))"
    using wide_header by (simp add: scale_and_filter_def Let_def fits_int_def)
  also have "\<dots> = collect (map ?f [0..149])" by simp
  finally show ?thesis using c by simp
qed

lemma wide_first_ten:
  "map (\<lambda>x. sample_pixel (drop 8 wide_image) 15000000 1 3 150 1 0 x) [0..9]
     = replicate 10 (Inr (Some (RGB 128 128 128)))"
proof -
  have "map (\<lambda>x. sample_pixel (replicate 45000000 128) 15000000 1 3 150 1 0 x) [0..9]
      = map (\<lambda>x. Inr (Some (RGB 128 128 128))) [0..9]"
    by (rule map_cong) (auto simp: wide_pixel_kept)
  then show ?thesis using wide_header by (simp add: map_replicate_const)
qed

lemma length_concat_replicate: "length (concat (replicate n xs)) = n * length xs"
  by (induction n) simp_all

lemma nth_concat_replicate:
  "i < n \<Longrightarrow> k < length xs \<Longrightarrow> concat (replicate n xs) ! (i * length xs + k) = xs ! k"
proof (induction n arbitrary: i)
  case 0
  then show ?case by simp
next
  case (Suc n)
  show ?case
  proof (cases i)
    case 0
    then show ?thesis using Suc.prems by (simp add: nth_append)
  next
    case (Suc i')
    then have "i' < n" using Suc.prems by simp
    from Suc.IH[OF this Suc.prems(2)] show ?thesis
      using Suc by (simp add: nth_append add.assoc)
  qed
qed

lemma transparent_header:
  "read_int wide_transparent_image = 15000000 \<and> read_int (drop 4 wide_transparent_image) = 1
   \<and> length wide_transparent_image = 8 + 4 * 15000000
   \<and> drop 8 wide_transparent_image = concat (replicate 15000000 [200, 100, 50, 0])"
  by (simp add: wide_transparent_image_def read_int_def length_concat_replicate)

lemma transparent_alpha:
  assumes "i < 15000000"
  shows "concat (replicate 15000000 [200, 100, 50, 0 :: 8 word]) ! (4 * i + 3) = 0"
  using nth_concat_replicate[OF assms, of 3 "[200, 100, 50, 0 :: 8 word]"]
  by (simp add: mult.commute)

lemma transparent_pixel_skipped:
  assumes "0 \<le> x" "x \<le> 143"
  shows "sample_pixel (concat (replicate 15000000 [200, 100, 50, 0])) 15000000 1 4 150 1 0 x = Inr None"
proof -
  have d: "x * 15000000 div 150 = x * 100000" by simp
  have f: "fits_int (x * 15000000)" "fits_int (x * 100000)" "fits_int (x * 100000 * 4)"
    using assms by (simp_all add: fits_int_def)
  have n: "nat (x * 100000 * 4 + 3) = 4 * nat (x * 100000) + 3"
    using assms by (simp add: nat_add_distrib nat_mult_distrib)
  have "nat (x * 100000) < 15000000" using assms by simp
  then have a: "concat (replicate 15000000 [200, 100, 50, 0 :: 8 word]) ! nat (x * 100000 * 4 + 3) = 0"
    unfolding n by (rule transparent_alpha)
  have b: "0 \<le> x * 100000 * 4" "x * 100000 * 4 + 4 \<le> 60000000" using assms by simp_all
  show ?thesis
    unfolding sample_pixel_def Let_def using f b a
    by (simp add: d fits_int_def length_concat_replicate)
qed

lemma transparent_pixel_overflow:
  assumes "144 \<le> x"
  shows "sample_pixel pixels 15000000 1 4 150 1 0 x = Inl IntOverflow"
  using assms by (simp add: sample_pixel_def fits_int_def)

lemma transparent_scale: "scale_and_filter wide_transparent_image 150 = Inl IntOverflow"
proof -
  let ?f = "\<lambda>x. sample_pixel (concat (replicate 15000000 [200, 100, 50, 0])) 15000000 1 4 150 1 0 x"
  have "map ?f [0..149] = map ?f [0..144 - 1] @ Inl IntOverflow # map ?f [144 + 1..149]"
    unfolding upto_150_split
    by (simp only: map_append list.map transparent_pixel_overflow[OF order_refl])
  moreover have "\<forall>r \<in> set (map ?f [0..144 - 1]). \<exists>p. r = Inr p"
    by (auto simp: transparent_pixel_skipped)
  ultimately have c: "collect (map ?f [0..149]) = Inl IntOverflow"
    by (simp only: collect_first_error)
  have "scale_and_filter wide_transparent_image 150 = collect (concat (map (\<lambda>y. map (\<lambda>x.
      sample_pixel (concat (replicate 15000000 [200, 100, 50, 0])) 15000000 1 4 150 1 y x)
        [0..150 - 1]) [0..1 - 1]))"
    using transparent_header by (simp add: scale_and_filter_def Let_def fits_int_def)
  also have "\<dots> = collect (map ?f [0..149])" by simp
  finally show ?thesis using c by simp
qed

lemma transparent_all_alpha:
  "list_all (\<lambda>i. drop 8 wide_transparent_image ! (4 * i + 3) = 0) [0..<15000000]"
  using transparent_header by (simp add: list_all_iff transparent_alpha)

lemma transparent_all_skipped:
  "list_all (\<lambda>x. sample_pixel (drop 8 wide_transparent_image) 15000000 1 4 150 1 0 x = Inr None) [0..143]"
  using transparent_header by (simp add: list_all_iff transparent_pixel_skipped)


text \<open>
  C1 (the code departs from the claim). The claim: for every valid decoded image
  (positive width and height, 3 or 4 channels, at least 10 pixels surviving the filters)
  and every palette size of at least 1, \<open>extract_colors\<close> returns exactly that many RGB
  triples. The 15000000 by 1 RGB image \<open>wide_image\<close> is such an image: its header reads
  width 15000000 and height 1, its data is 3 bytes per pixel, and its resampled pixels
  pass the filters (the first ten are shown). At column 144 the product \<open>x * width\<close>
  leaves the range of \<open>int\<close>, and the call returns no palette.
\<close>

theorem extract_colors_wide_image_overflow:
  "read_int wide_image = 15000000 \<and> read_int (drop 4 wide_image) = 1
   \<and> length wide_image = 8 + 3 * 15000000
   \<and> map (\<lambda>x. sample_pixel (drop 8 wide_image) 15000000 1 3 150 1 0 x) [0..9]
       = replicate 10 (Inr (Some (RGB 128 128 128)))
   \<and> fits_int (143 * 15000000) \<and> \<not> fits_int (144 * 15000000)
   \<and> sample_pixel (drop 8 wide_image) 15000000 1 3 150 1 0 144 = Inl IntOverflow
   \<and> scale_and_filter wide_image 150 = Inl IntOverflow
   \<and> extract_colors ent wide_image 5 20 150 = Inl IntOverflow"
  using wide_header wide_first_ten wide_scale wide_pixel_overflow[of 144 "drop 8 wide_image"]
  by (simp add: extract_colors_def fits_int_def)

theorem extract_colors_wide_image_overflow_witness:
  "scale_and_filter wide_image 150 = Inl IntOverflow
   \<and> extract_colors test_entropy wide_image 5 20 150 = Inl IntOverflow"
  using extract_colors_wide_image_overflow[of test_entropy] by simp

text \<open>
  C3 (the code departs from the claim). The claim: extraction fails with the error for
  too few valid pixels if and only if fewer than 10 resampled pixels survive the alpha
  filter (alpha below 128) and the brightness filter (mean above 240 or below 20), and
  in particular an RGBA image whose every pixel has alpha 0 raises this error. In the
  15000000 by 1 RGBA image \<open>wide_transparent_image\<close> every pixel has alpha 0, and every
  resampled pixel up to column 143 is skipped by the alpha filter, so no pixel survives.
  At column 144 the product \<open>x * width\<close> leaves the range of \<open>int\<close>, and the call does not
  end with the error for too few valid pixels.
\<close>

theorem extract_colors_wide_transparent_overflow:
  "read_int wide_transparent_image = 15000000 \<and> read_int (drop 4 wide_transparent_image) = 1
   \<and> length wide_transparent_image = 8 + 4 * 15000000
   \<and> list_all (\<lambda>i. drop 8 wide_transparent_image ! (4 * i + 3) = 0) [0..<15000000]
   \<and> list_all (\<lambda>x. sample_pixel (drop 8 wide_transparent_image) 15000000 1 4 150 1 0 x = Inr None)
         [0..143]
   \<and> sample_pixel (drop 8 wide_transparent_image) 15000000 1 4 150 1 0 144 = Inl IntOverflow
   \<and> scale_and_filter wide_transparent_image 150 = Inl IntOverflow
   \<and> extract_colors ent wide_transparent_image n md 150 = Inl IntOverflow
   \<and> extract_colors ent wide_transparent_image n md 150 \<noteq> Inl InsufficientValidPixels"
  using transparent_header transparent_all_alpha transparent_all_skipped transparent_scale
    transparent_pixel_overflow[of 144 "drop 8 wide_transparent_image"]
  by (simp add: extract_colors_def)

theorem extract_colors_wide_transparent_overflow_witness:
  "scale_and_filter wide_transparent_image 150 = Inl IntOverflow
   \<and> extract_colors test_entropy wide_transparent_image 5 20 150 = Inl IntOverflow"
  using extract_colors_wide_transparent_overflow[of test_entropy 5 20] by simp

subsection \<open>The round trip from RGB to Lab and back\<close>

text \<open>
  In exact arithmetic the Lab stage cancels (\<open>lab_f_inv\<close> inverts \<open>lab_f\<close> on non-negative
  arguments), so the round trip is the gamma decoding, the product of the two rounded
  matrices, and the gamma encoding. The product differs from the identity by less than
  \<open>0.00007\<close> in every row; the lemmas below bound what the gamma encoding makes of
  such an error.
\<close>

lemma fifth_root_le:
  fixes x t :: real
  assumes "0 < x" "0 \<le> t" "t ^ 5 \<le> x ^ n"
  shows "t \<le> x powr (real n / 5)"
proof -
  have "t = (t ^ 5) powr (1 / 5)"
  proof (cases "t = 0")
    case True then show ?thesis by simp
  next
    case False
    then have t: "0 < t" using assms by simp
    have "(t ^ 5) powr (1 / 5) = (t powr real 5) powr (1 / 5)"
      by (simp only: powr_realpow[OF t])
    also have "\<dots> = t powr (real 5 * (1 / 5))" by (rule powr_powr)
    also have "\<dots> = t" using t by simp
    finally show ?thesis by simp
  qed
  also have "\<dots> \<le> (x ^ n) powr (1 / 5)"
    using assms by (intro powr_mono2) simp_all
  also have "\<dots> = (x powr real n) powr (1 / 5)"
    by (simp only: powr_realpow[OF assms(1)])
  also have "\<dots> = x powr (real n * (1 / 5))" by (rule powr_powr)
  finally show ?thesis by simp
qed

lemma powr_12_5_lower:
  fixes x t :: real
  assumes "0 < x" "0 \<le> t" "t ^ 5 \<le> x ^ 12"
  shows "t \<le> x powr (12 / 5)"
  using fifth_root_le[OF assms(1,2), of 12] assms(3) by simp

lemma powr_2_5_lower:
  fixes x t :: real
  assumes "0 < x" "0 \<le> t" "t ^ 5 \<le> x ^ 2"
  shows "t \<le> x powr (2 / 5)"
  using fifth_root_le[OF assms(1,2), of 2] assms(3) by simp

lemma powr_12_5_split:
  fixes x :: real
  assumes "0 < x"
  shows "x powr (12 / 5) = x ^ 2 * x powr (2 / 5)"
proof -
  have "x powr (12 / 5) = x powr (real 2 + 2 / 5)" by simp
  also have "\<dots> = x powr real 2 * x powr (2 / 5)" by (rule powr_add)
  also have "\<dots> = x ^ 2 * x powr (2 / 5)" by (simp only: powr_realpow[OF assms])
  finally show ?thesis .
qed

lemma powr_12_5_diff:
  fixes a b q :: real
  assumes "0 < b" "b \<le> a" "0 \<le> q" "q ^ 5 \<le> b ^ 2"
  shows "q * (a ^ 2 - b ^ 2) \<le> a powr (12 / 5) - b powr (12 / 5)"
proof -
  have a: "0 < a" using assms by simp
  have qb: "q \<le> b powr (2 / 5)" using assms by (intro powr_2_5_lower) simp_all
  have ba: "b powr (2 / 5) \<le> a powr (2 / 5)" using assms by (intro powr_mono2) simp_all
  have sq: "b ^ 2 \<le> a ^ 2" using assms by (intro power_mono) simp_all
  have "q * (a ^ 2 - b ^ 2) \<le> b powr (2 / 5) * (a ^ 2 - b ^ 2)"
    using qb sq by (intro mult_right_mono) simp_all
  also have "\<dots> = a ^ 2 * b powr (2 / 5) - b ^ 2 * b powr (2 / 5)" by (simp add: algebra_simps)
  also have "\<dots> \<le> a ^ 2 * a powr (2 / 5) - b ^ 2 * b powr (2 / 5)"
    using ba by (simp add: mult_left_mono)
  also have "\<dots> = a powr (12 / 5) - b powr (12 / 5)"
    by (simp only: powr_12_5_split[OF a] powr_12_5_split[OF assms(1)])
  finally show ?thesis .
qed

lemma powr_12_5_inverse:
  fixes a :: real
  assumes "0 < a"
  shows "(a powr (12 / 5)) powr (5 / 12) = a"
  using assms by (simp add: powr_powr)

lemma gamma_correct_low: "c \<le> 0.04045 \<Longrightarrow> gamma_correct c = c / 12.92"
  by (simp add: gamma_correct_def)

lemma gamma_correct_high: "c > 0.04045 \<Longrightarrow> gamma_correct c = ((c + 0.055) / 1.055) powr (12 / 5)"
  by (simp add: gamma_correct_def)

lemma gamma_uncorrect_low: "c \<le> 0.0031308 \<Longrightarrow> gamma_uncorrect c = 12.92 * c"
  by (simp add: gamma_uncorrect_def)

lemma gamma_uncorrect_high: "c > 0.0031308 \<Longrightarrow> gamma_uncorrect c = 1.055 * (c powr (5 / 12)) - 0.055"
  by (simp add: gamma_uncorrect_def)


lemma abs_scale:
  fixes x a k b :: real
  assumes "\<bar>x\<bar> \<le> a" "0 \<le> k" "k * a \<le> b"
  shows "\<bar>k * x\<bar> \<le> b"
proof -
  have "\<bar>k * x\<bar> = k * \<bar>x\<bar>" using assms(2) by (simp add: abs_mult)
  also have "\<dots> \<le> k * a" using assms(1,2) by (rule mult_left_mono)
  finally show ?thesis using assms(3) by simp
qed

lemma abs_between:
  fixes P w d :: real
  assumes "w - d \<le> P" "P \<le> w + d"
  shows "\<bar>P - w\<bar> \<le> d"
  using assms by linarith

lemma channel_roundtrip:
  fixes v :: nat and e :: real
  assumes v: "v \<le> 255" and e: "\<bar>e\<bar> \<le> 0.00007"
  shows "\<bar>gamma_uncorrect (gamma_correct (real v / 255) + e) - real v / 255\<bar> \<le> 0.005275"
proof (cases "v \<le> 10")
  case True
  define s where "s = real v / 255"
  have s: "0 \<le> s" "s \<le> 10 / 255" using True by (simp_all add: s_def)
  then have gc: "gamma_correct s = s / 12.92" by (intro gamma_correct_low) simp
  have "s / 12.92 + e \<le> 0.0031308" using s e by simp
  then have "gamma_uncorrect (s / 12.92 + e) = 12.92 * (s / 12.92 + e)"
    by (rule gamma_uncorrect_low)
  then have eq: "gamma_uncorrect (gamma_correct s + e) - s = 12.92 * e"
    by (simp add: gc algebra_simps)
  have "\<bar>12.92 * e\<bar> \<le> 0.005275" by (rule abs_scale[OF e]) simp_all
  then show ?thesis unfolding s_def[symmetric] eq .
next
  case False
  define s where "s = real v / 255"
  define w where "w = (s + 0.055) / 1.055"
  have s: "11 / 255 \<le> s" "s \<le> 1" using False v by (simp_all add: s_def)
  then have gc: "gamma_correct s = w powr (12 / 5)"
    unfolding w_def by (intro gamma_correct_high) simp
  have w: "0.093 \<le> w" "w \<le> 1" using s by (simp_all add: w_def)
  have sw: "s = 1.055 * w - 0.055" by (simp add: w_def field_simps)
  have "(0.0033::real) ^ 5 \<le> 0.093 ^ 12" by (simp add: power_divide)
  also have "\<dots> \<le> w ^ 12" using w by (intro power_mono) simp_all
  finally have "0.0033 \<le> w powr (12 / 5)" using w by (intro powr_12_5_lower) simp_all
  then have big: "w powr (12 / 5) + e > 0.0031308" using e by simp
  have q1: "(0.37::real) ^ 5 \<le> (w - 0.005) ^ 2"
  proof -
    have "(0.37::real) ^ 5 \<le> 0.088 ^ 2" by (simp add: power_divide)
    also have "\<dots> \<le> (w - 0.005) ^ 2" using w by (intro power_mono) simp_all
    finally show ?thesis .
  qed
  have q2: "(0.37::real) ^ 5 \<le> w ^ 2"
  proof -
    have "(0.37::real) ^ 5 \<le> 0.093 ^ 2" by (simp add: power_divide)
    also have "\<dots> \<le> w ^ 2" using w by (intro power_mono) simp_all
    finally show ?thesis .
  qed
  have lo: "(w - 0.005) powr (12 / 5) \<le> w powr (12 / 5) + e"
  proof -
    have "0.37 * (w ^ 2 - (w - 0.005) ^ 2) \<le> w powr (12 / 5) - (w - 0.005) powr (12 / 5)"
      using w q1 by (intro powr_12_5_diff) simp_all
    moreover have "0.00007 \<le> 0.37 * (w ^ 2 - (w - 0.005) ^ 2)"
      using w by (simp add: power2_eq_square algebra_simps)
    ultimately show ?thesis using e by linarith
  qed
  have hi: "w powr (12 / 5) + e \<le> (w + 0.005) powr (12 / 5)"
  proof -
    have "0.37 * ((w + 0.005) ^ 2 - w ^ 2) \<le> (w + 0.005) powr (12 / 5) - w powr (12 / 5)"
      using w q2 by (intro powr_12_5_diff) simp_all
    moreover have "0.00007 \<le> 0.37 * ((w + 0.005) ^ 2 - w ^ 2)"
      using w by (simp add: power2_eq_square algebra_simps)
    ultimately show ?thesis using e by linarith
  qed
  have "((w - 0.005) powr (12 / 5)) powr (5 / 12) \<le> (w powr (12 / 5) + e) powr (5 / 12)"
    using lo by (intro powr_mono2) simp_all
  then have lo': "w - 0.005 \<le> (w powr (12 / 5) + e) powr (5 / 12)"
    using w powr_12_5_inverse[of "w - 0.005"] by simp
  have "(w powr (12 / 5) + e) powr (5 / 12) \<le> ((w + 0.005) powr (12 / 5)) powr (5 / 12)"
    using hi big by (intro powr_mono2) simp_all
  then have hi': "(w powr (12 / 5) + e) powr (5 / 12) \<le> w + 0.005"
    using w powr_12_5_inverse[of "w + 0.005"] by simp
  define P where "P = (w powr (12 / 5) + e) powr (5 / 12)"
  have "gamma_uncorrect (w powr (12 / 5) + e) = 1.055 * P - 0.055"
    unfolding P_def using big by (rule gamma_uncorrect_high)
  then have g: "gamma_uncorrect (gamma_correct s + e) = 1.055 * P - 0.055"
    by (simp only: gc)
  have d: "\<bar>P - w\<bar> \<le> 0.005"
    using lo' hi' unfolding P_def[symmetric] by (rule abs_between)
  have eq: "(1.055 * P - 0.055) - s = 1.055 * (P - w)"
    unfolding sw by (simp add: algebra_simps)
  have "\<bar>1.055 * (P - w)\<bar> \<le> 0.005275" by (rule abs_scale[OF d]) simp_all
  then show ?thesis unfolding s_def[symmetric] g eq .
qed


lemma lab_f_inv_lab_f:
  assumes "0 \<le> t"
  shows "lab_f_inv (lab_f t) = t"
proof (cases "t > 0.008856")
  case True
  have "root 3 t * root 3 t * root 3 t = root 3 t ^ 3" by (simp add: power3_eq_cube)
  also have "\<dots> = t" using assms by (simp add: real_root_pow_pos2)
  finally have "root 3 t * root 3 t * root 3 t = t" .
  then show ?thesis using True by (simp add: lab_f_def lab_f_inv_def Let_def)
next
  case False
  define u where "u = 7.787 * t + 16 / 116"
  have u: "0 \<le> u" "u \<le> 0.2068928" using assms False by (simp_all add: u_def)
  have "u * u * u \<le> 0.2068928 * 0.2068928 * 0.2068928"
    using u by (intro mult_mono) simp_all
  also have "\<dots> \<le> (0.008856::real)" by simp
  finally have small: "\<not> u * u * u > 0.008856" by simp
  have tb: "(u - 16 / 116) / 7.787 = t" by (simp add: u_def)
  have "lab_f t = u" using False by (simp add: lab_f_def u_def)
  moreover have "lab_f_inv u = (u - 16 / 116) / 7.787"
    using small by (simp only: lab_f_inv_def Let_def if_False)
  ultimately show ?thesis using tb by simp
qed

lemma gamma_correct_range:
  assumes "v \<le> (255::nat)"
  shows "0 \<le> gamma_correct (real v / 255) \<and> gamma_correct (real v / 255) \<le> 1"
proof (cases "real v / 255 > 0.04045")
  case True
  have "((real v / 255 + 0.055) / 1.055) powr (12 / 5) \<le> 1 powr (12 / 5)"
    using assms by (intro powr_mono2) simp_all
  then show ?thesis using True by (simp add: gamma_correct_high)
next
  case False
  then show ?thesis using assms by (simp add: gamma_correct_def)
qed

lemma to_u8_near:
  fixes v :: nat and y :: real
  assumes v: "v \<le> 255" and y: "\<bar>y - real v / 255\<bar> \<le> 0.005275"
  shows "\<bar>int (unat (to_u8 y)) - int v\<bar> \<le> 1"
proof -
  define s where "s = real v / 255"
  define z where "z = max 0 (min 1 y)"
  define x where "x = z * 255 + 0.5"
  have s: "0 \<le> s" "s \<le> 1" using v by (simp_all add: s_def)
  have ys: "s - 0.005275 \<le> y" "y \<le> s + 0.005275"
    using y unfolding s_def[symmetric] by linarith+
  have z: "0 \<le> z" "z \<le> 1" "s - 0.005275 \<le> z" "z \<le> s + 0.005275"
    using ys s by (auto simp: z_def max_def min_def)
  have vs: "real v = 255 * s" by (simp add: s_def)
  have x: "0 \<le> x" "x < 256" "real v - 1 \<le> x" "x < real v + 2"
    using z unfolding vs by (simp_all add: x_def)
  have f: "0 \<le> \<lfloor>x\<rfloor>" "\<lfloor>x\<rfloor> < 256" "int v - 1 \<le> \<lfloor>x\<rfloor>" "\<lfloor>x\<rfloor> < int v + 2"
    using x by (simp_all add: le_floor_iff floor_less_iff)
  have n: "nat \<lfloor>x\<rfloor> < 256" using f(1,2) by linarith
  have "unat (word_of_nat (nat \<lfloor>x\<rfloor>) :: 8 word) = nat \<lfloor>x\<rfloor>"
    using n by (simp add: unat_of_nat take_bit_nat_eq_self)
  then have "int (unat (to_u8 y)) = \<lfloor>x\<rfloor>"
    using f by (simp add: to_u8_def x_def z_def)
  then show ?thesis using f by simp
qed


lemma u8_bound: "unat (x :: 8 word) \<le> 255"
proof -
  have "unat x < 2 ^ LENGTH(8)" by (rule unsigned_less)
  then show ?thesis by simp
qed

lemma lab_to_rgb_of_f:
  "lab_to_rgb (Lab (116 * fy - 16) (500 * (fx - fy)) (200 * (fy - fz))) =
     RGB (to_u8 (gamma_uncorrect (lab_f_inv fx * 0.95047 * 3.2406 + lab_f_inv fy * 1.00000 * (- 1.5372)
                                  + lab_f_inv fz * 1.08883 * (- 0.4986))))
         (to_u8 (gamma_uncorrect (lab_f_inv fx * 0.95047 * (- 0.9689) + lab_f_inv fy * 1.00000 * 1.8758
                                  + lab_f_inv fz * 1.08883 * 0.0415)))
         (to_u8 (gamma_uncorrect (lab_f_inv fx * 0.95047 * 0.0557 + lab_f_inv fy * 1.00000 * (- 0.2040)
                                  + lab_f_inv fz * 1.08883 * 1.0570)))"
proof -
  have a: "(116 * fy - 16 + 16) / 116 = fy" by simp
  have b: "500 * (fx - fy) / 500 + fy = fx" by (simp add: field_simps)
  have c: "fy - 200 * (fy - fz) / 200 = fz" by (simp add: field_simps)
  show ?thesis
    unfolding lab_to_rgb_def Let_def Lab.sel a b c ..
qed

lemma roundtrip_form:
  fixes r g b :: "8 word"
  defines "cr \<equiv> gamma_correct (real (unat r) / 255)"
    and "cg \<equiv> gamma_correct (real (unat g) / 255)"
    and "cb \<equiv> gamma_correct (real (unat b) / 255)"
  shows "lab_to_rgb (rgb_to_lab r g b) =
     RGB (to_u8 (gamma_uncorrect (cr + (- 413 / 50000000 * cr + 579 / 25000000 * cb))))
         (to_u8 (gamma_uncorrect (cg + (2167 / 100000000 * cr + 63 / 1562500 * cg - 397 / 50000000 * cb))))
         (to_u8 (gamma_uncorrect (cb + (19 / 50000000 * cr + 149 / 12500000 * cg + 71 / 20000000 * cb))))"
proof -
  have v: "unat r \<le> 255" "unat g \<le> 255" "unat b \<le> 255"
    using u8_bound[of r] u8_bound[of g] u8_bound[of b] by simp_all
  have c: "0 \<le> cr" "0 \<le> cg" "0 \<le> cb"
    using gamma_correct_range[OF v(1)] gamma_correct_range[OF v(2)] gamma_correct_range[OF v(3)]
    by (simp_all add: cr_def cg_def cb_def)
  define X where "X = cr * 0.4124 + cg * 0.3576 + cb * 0.1805"
  define Y where "Y = cr * 0.2126 + cg * 0.7152 + cb * 0.0722"
  define Z where "Z = cr * 0.0193 + cg * 0.1192 + cb * 0.9505"
  have nn: "0 \<le> X / 0.95047" "0 \<le> Y / 1.00000" "0 \<le> Z / 1.08883"
    using c by (simp_all add: X_def Y_def Z_def)
  have "rgb_to_lab r g b =
      Lab (116 * lab_f (Y / 1.00000) - 16) (500 * (lab_f (X / 0.95047) - lab_f (Y / 1.00000)))
          (200 * (lab_f (Y / 1.00000) - lab_f (Z / 1.08883)))"
    unfolding rgb_to_lab_def Let_def cr_def cg_def cb_def X_def Y_def Z_def ..
  then have "lab_to_rgb (rgb_to_lab r g b) =
     RGB (to_u8 (gamma_uncorrect (X / 0.95047 * 0.95047 * 3.2406 + Y / 1.00000 * 1.00000 * (- 1.5372)
                                  + Z / 1.08883 * 1.08883 * (- 0.4986))))
         (to_u8 (gamma_uncorrect (X / 0.95047 * 0.95047 * (- 0.9689) + Y / 1.00000 * 1.00000 * 1.8758
                                  + Z / 1.08883 * 1.08883 * 0.0415)))
         (to_u8 (gamma_uncorrect (X / 0.95047 * 0.95047 * 0.0557 + Y / 1.00000 * 1.00000 * (- 0.2040)
                                  + Z / 1.08883 * 1.08883 * 1.0570)))"
    by (simp only: lab_to_rgb_of_f lab_f_inv_lab_f[OF nn(1)] lab_f_inv_lab_f[OF nn(2)]
        lab_f_inv_lab_f[OF nn(3)])
  moreover have "X / 0.95047 * 0.95047 = X" "Y / 1.00000 * 1.00000 = Y" "Z / 1.08883 * 1.08883 = Z"
    by simp_all
  moreover have "X * 3.2406 + Y * (- 1.5372) + Z * (- 0.4986)
      = cr + (- 413 / 50000000 * cr + 579 / 25000000 * cb)"
    by (simp add: X_def Y_def Z_def algebra_simps)
  moreover have "X * (- 0.9689) + Y * 1.8758 + Z * 0.0415
      = cg + (2167 / 100000000 * cr + 63 / 1562500 * cg - 397 / 50000000 * cb)"
    by (simp add: X_def Y_def Z_def algebra_simps)
  moreover have "X * 0.0557 + Y * (- 0.2040) + Z * 1.0570
      = cb + (19 / 50000000 * cr + 149 / 12500000 * cg + 71 / 20000000 * cb)"
    by (simp add: X_def Y_def Z_def algebra_simps)
  ultimately show ?thesis by (simp only:)
qed


text \<open>
  C2. For every 8-bit triple \<open>(r, g, b)\<close>, \<open>lab_to_rgb (rgb_to_lab r g b)\<close> differs from
  \<open>(r, g, b)\<close> by at most 1 in each channel.
\<close>

theorem rgb_lab_roundtrip:
  fixes r g b :: "8 word"
  shows "\<bar>int (unat (rgb_r (lab_to_rgb (rgb_to_lab r g b)))) - int (unat r)\<bar> \<le> 1
       \<and> \<bar>int (unat (rgb_g (lab_to_rgb (rgb_to_lab r g b)))) - int (unat g)\<bar> \<le> 1
       \<and> \<bar>int (unat (rgb_b (lab_to_rgb (rgb_to_lab r g b)))) - int (unat b)\<bar> \<le> 1"
proof -
  define cr where "cr = gamma_correct (real (unat r) / 255)"
  define cg where "cg = gamma_correct (real (unat g) / 255)"
  define cb where "cb = gamma_correct (real (unat b) / 255)"
  have v: "unat r \<le> 255" "unat g \<le> 255" "unat b \<le> 255"
    using u8_bound[of r] u8_bound[of g] u8_bound[of b] by simp_all
  have c: "0 \<le> cr" "cr \<le> 1" "0 \<le> cg" "cg \<le> 1" "0 \<le> cb" "cb \<le> 1"
    using gamma_correct_range[OF v(1)] gamma_correct_range[OF v(2)] gamma_correct_range[OF v(3)]
    by (simp_all add: cr_def cg_def cb_def)
  define er where "er = - 413 / 50000000 * cr + 579 / 25000000 * cb"
  define eg where "eg = 2167 / 100000000 * cr + 63 / 1562500 * cg - 397 / 50000000 * cb"
  define eb where "eb = 19 / 50000000 * cr + 149 / 12500000 * cg + 71 / 20000000 * cb"
  have "\<bar>er\<bar> \<le> 7 / 100000" "\<bar>eg\<bar> \<le> 7 / 100000" "\<bar>eb\<bar> \<le> 7 / 100000"
    using c unfolding er_def eg_def eb_def by linarith+
  then have e: "\<bar>er\<bar> \<le> 0.00007" "\<bar>eg\<bar> \<le> 0.00007" "\<bar>eb\<bar> \<le> 0.00007"
    by simp_all
  have form: "lab_to_rgb (rgb_to_lab r g b) =
     RGB (to_u8 (gamma_uncorrect (cr + er))) (to_u8 (gamma_uncorrect (cg + eg)))
         (to_u8 (gamma_uncorrect (cb + eb)))"
    unfolding cr_def cg_def cb_def er_def eg_def eb_def by (rule roundtrip_form)
  show ?thesis
    unfolding form RGB.sel
    using to_u8_near[OF v(1) channel_roundtrip[OF v(1) e(1)]]
      to_u8_near[OF v(2) channel_roundtrip[OF v(2) e(2)]]
      to_u8_near[OF v(3) channel_roundtrip[OF v(3) e(3)]]
    unfolding cr_def cg_def cb_def by simp
qed


end
